theory Spec2Isabelle
  imports Main "HOL-Library.AList"
begin

section \<open>Values of the tables\<close>

text \<open>
  The program of \<^verbatim>\<open>src/app.py\<close> reads its tables with pandas; a cell of a table is a
  missing value (NaN), an integer or a text. Python strings are modelled as \<^typ>\<open>string\<close>,
  the UTF-8 bytes of the text: substring tests on well-formed UTF-8 agree with the tests
  on code points. The character classes used (white space, decimal digits, capital
  letters) are the ASCII ones. Float-typed cells are not part of the model; the conversion
  \<^verbatim>\<open>int(float(v))\<close>, which goes through a float also for integers and texts, is a
  parameter \<open>cv\<close> of every function that uses it.
\<close>

type_synonym bytes = "char list"

datatype cell = NaN | IntC int | StrC string

type_synonym row = "cell list"

text \<open>What \<^verbatim>\<open>int(float(v))\<close> does: a value, or one of the three exceptions it can raise.\<close>

datatype conv = Conv int | ValueErr | TypeErr | OverflowErr

text \<open>The exceptions that the methods modelled here do not catch.\<close>

datatype py_error = OverflowError | IndexError

text \<open>A Python \<^verbatim>\<open>dict\<close> keeps insertion order: an association list, written with
  \<^const>\<open>AList.update\<close> (a present key keeps its place, a new key goes last) and read with
  \<^const>\<open>map_of\<close>.\<close>

type_synonym ('k, 'v) dict = "('k \<times> 'v) list"

subsection \<open>Builtins on strings\<close>

definition isspace :: "char \<Rightarrow> bool" where
  "isspace c = (c \<in> {CHR 0x09, CHR 0x0A, CHR 0x0B, CHR 0x0C, CHR 0x0D,
                      CHR 0x1C, CHR 0x1D, CHR 0x1E, CHR 0x1F, CHR 0x20})"

definition strip :: "string \<Rightarrow> string" where
  "strip s = rev (dropWhile isspace (rev (dropWhile isspace s)))"

definition isdigit :: "char \<Rightarrow> bool" where
  "isdigit c = (c \<in> set ''0123456789'')"

definition digit_val :: "char \<Rightarrow> nat" where
  "digit_val c = of_char c - 48"

definition digit_chr :: "nat \<Rightarrow> char" where
  "digit_chr d = char_of (48 + d)"

text \<open>\<^verbatim>\<open>int(s)\<close> on a string of decimal digits.\<close>

definition int_of_digits :: "string \<Rightarrow> nat" where
  "int_of_digits s = foldl (\<lambda>a c. 10 * a + digit_val c) 0 s"

text \<open>\<^verbatim>\<open>str(n)\<close> on an integer.\<close>

fun str_nat :: "nat \<Rightarrow> string" where
  "str_nat n = (if n < 10 then [digit_chr n] else str_nat (n div 10) @ [digit_chr (n mod 10)])"

declare str_nat.simps [simp del]

definition str_int :: "int \<Rightarrow> string" where
  "str_int i = (if i < 0 then CHR ''-'' # str_nat (nat (- i)) else str_nat (nat i))"

text \<open>\<^verbatim>\<open>a in b\<close> on strings: \<open>a\<close> occurs in \<open>b\<close> as a contiguous piece.\<close>

fun py_in :: "string \<Rightarrow> string \<Rightarrow> bool" where
  "py_in a [] = (a = [])"
| "py_in a (c # b) = (a = take (length a) (c # b) \<or> py_in a b)"

text \<open>\<^verbatim>\<open>s.split('-')[0]\<close>: the part before the first hyphen.\<close>

definition before_hyphen :: "string \<Rightarrow> string" where
  "before_hyphen s = takeWhile (\<lambda>c. c \<noteq> CHR ''-'') s"

text \<open>\<^verbatim>\<open>str(v)\<close> and the f-string rendering \<^verbatim>\<open>f"{v}"\<close> of a cell.\<close>

fun py_str :: "cell \<Rightarrow> string" where
  "py_str NaN = ''nan''"
| "py_str (IntC i) = str_int i"
| "py_str (StrC s) = s"

subsection \<open>A reference conversion for decimal literals\<close>

text \<open>
  The theorems below hold for every conversion \<open>cv\<close>. Where a concrete one is needed
  (to run the model on an input), \<open>int_float\<close> is used: it is \<^verbatim>\<open>int(float(v))\<close> on
  integers and on the texts \<^verbatim>\<open>[+-]digits[.digits]\<close> (surrounding white space allowed),
  and it raises on \<^verbatim>\<open>inf\<close> and \<^verbatim>\<open>nan\<close> as Python does. It is exact as long as the
  value has at most 15 digits; exponents and digit separators are not covered.
\<close>

definition unsigned_literal :: "string \<Rightarrow> conv" where
  "unsigned_literal s =
     (let ip = takeWhile isdigit s; rest = dropWhile isdigit s in
      if s = ''inf'' \<or> s = ''infinity'' then OverflowErr
      else if rest = [] then (if ip = [] then ValueErr else Conv (int (int_of_digits ip)))
      else if hd rest = CHR ''.'' \<and> list_all isdigit (tl rest) \<and> (ip \<noteq> [] \<or> tl rest \<noteq> [])
        then Conv (int (int_of_digits ip))
      else ValueErr)"

definition literal :: "string \<Rightarrow> conv" where
  "literal s =
     (case s of
        [] \<Rightarrow> ValueErr
      | c # t \<Rightarrow>
          if c = CHR ''-'' then (case unsigned_literal t of Conv n \<Rightarrow> Conv (- n) | r \<Rightarrow> r)
          else if c = CHR ''+'' then unsigned_literal t
          else unsigned_literal s)"

fun int_float :: "cell \<Rightarrow> conv" where
  "int_float NaN = ValueErr"
| "int_float (IntC i) = Conv i"
| "int_float (StrC s) = literal (strip s)"

section \<open>The generator\<close>

text \<open>
  The keys of \<^verbatim>\<open>col_mapping\<close> are four fixed texts: the product id column, the SKU code
  column, the units-per-set column and the detail column of the product-id table.
\<close>

datatype col_key = ProductIdCol | SkuCodeCol | UnitQtyCol | DetailCol

record generator =
  col_mapping :: "col_key \<rightharpoonup> nat"
  product_id_index :: "(string, row) dict"
  supplier_sku_cache :: "(string, string \<times> bool) dict"
  image_cache :: "(string, bytes) dict"
  sku_name_df :: "row list"
  barcode_files_dict :: "(string, bytes) dict"

text \<open>\<^verbatim>\<open>pd.isna\<close>, \<^verbatim>\<open>_safe_str\<close> and \<^verbatim>\<open>_safe_int\<close>.\<close>

definition isna :: "cell \<Rightarrow> bool" where
  "isna v = (v = NaN)"

definition safe_str :: "cell \<Rightarrow> string" where
  "safe_str v = (if isna v then [] else strip (py_str v))"

definition safe_int :: "(cell \<Rightarrow> conv) \<Rightarrow> cell \<Rightarrow> int \<Rightarrow> py_error + int" where
  "safe_int cv v dflt =
     (if isna v then Inr dflt
      else case cv v of
             Conv n \<Rightarrow> Inr n
           | ValueErr \<Rightarrow> Inr dflt
           | TypeErr \<Rightarrow> Inr dflt
           | OverflowErr \<Rightarrow> Inl OverflowError)"

text \<open>\<^verbatim>\<open>row.iloc[i]\<close> raises outside the row.\<close>

definition iloc :: "row \<Rightarrow> nat \<Rightarrow> py_error + cell" where
  "iloc r i = (if i < length r then Inr (r ! i) else Inl IndexError)"

subsection \<open>The product-id index\<close>

text \<open>One round of the loop of \<^verbatim>\<open>_build_product_id_index\<close>.\<close>

definition index_row ::
  "(cell \<Rightarrow> conv) \<Rightarrow> nat \<Rightarrow> row \<Rightarrow> (string, row) dict \<Rightarrow> py_error + (string, row) dict" where
  "index_row cv col r idx =
     (if col < length r \<and> \<not> isna (r ! col) then
        (let product_id = safe_str (r ! col) in
         case cv (StrC product_id) of
           Conv n \<Rightarrow> Inr (AList.update product_id r (AList.update (str_int n) r idx))
         | ValueErr \<Rightarrow> Inr (AList.update product_id r idx)
         | TypeErr \<Rightarrow> Inr (AList.update product_id r idx)
         | OverflowErr \<Rightarrow> Inl OverflowError)
      else Inr idx)"

fun index_rows ::
  "(cell \<Rightarrow> conv) \<Rightarrow> nat \<Rightarrow> row list \<Rightarrow> (string, row) dict \<Rightarrow> py_error + (string, row) dict" where
  "index_rows cv col [] idx = Inr idx"
| "index_rows cv col (r # rs) idx =
     (case index_row cv col r idx of Inl e \<Rightarrow> Inl e | Inr idx' \<Rightarrow> index_rows cv col rs idx')"

definition build_product_id_index ::
  "(cell \<Rightarrow> conv) \<Rightarrow> (col_key \<rightharpoonup> nat) \<Rightarrow> row list \<Rightarrow> py_error + (string, row) dict" where
  "build_product_id_index cv cm sku_id_df =
     index_rows cv (case cm ProductIdCol of Some c \<Rightarrow> c | None \<Rightarrow> 1) sku_id_df []"

definition get_row_by_product_id ::
  "(cell \<Rightarrow> conv) \<Rightarrow> (string, row) dict \<Rightarrow> cell \<Rightarrow> py_error + row option" where
  "get_row_by_product_id cv idx product_id =
     (let product_id_str = safe_str product_id in
      if product_id_str = [] then Inr None
      else case map_of idx product_id_str of
             Some r \<Rightarrow> Inr (Some r)
           | None \<Rightarrow>
               (case cv (StrC product_id_str) of
                  Conv n \<Rightarrow> Inr (map_of idx (str_int n))
                | ValueErr \<Rightarrow> Inr None
                | TypeErr \<Rightarrow> Inr None
                | OverflowErr \<Rightarrow> Inl OverflowError))"

text \<open>
  For the statements about the index: the trimmed product id of a row of the table, when
  the row has one, and the keys under which \<^verbatim>\<open>_build_product_id_index\<close> stores the row
  (the normalised id first, when the id parses, then the id as it is written).
\<close>

definition row_id :: "nat \<Rightarrow> row \<Rightarrow> string option" where
  "row_id col r = (if col < length r \<and> \<not> isna (r ! col) then Some (safe_str (r ! col)) else None)"

definition row_keys :: "(cell \<Rightarrow> conv) \<Rightarrow> nat \<Rightarrow> row \<Rightarrow> string list" where
  "row_keys cv col r =
     (case row_id col r of
        None \<Rightarrow> []
      | Some p \<Rightarrow> (case cv (StrC p) of Conv n \<Rightarrow> [str_int n, p] | _ \<Rightarrow> [p]))"

text \<open>
  Two conditions on a table. The first is on the conversion: the normalised form of
  every id of the table parses to the same integer again, as the text of an integer
  obtained from a float does in Python. The second is on the table: every row whose id
  has the normalised form \<open>k\<close> writes the id as \<open>s\<close>; no numeric id is spelled in two
  ways.
\<close>

definition normal_ids_parse :: "(cell \<Rightarrow> conv) \<Rightarrow> nat \<Rightarrow> row list \<Rightarrow> bool" where
  "normal_ids_parse cv col rows =
     list_all (\<lambda>r. case row_id col r of
                     None \<Rightarrow> True
                   | Some p \<Rightarrow> (case cv (StrC p) of
                                  Conv m \<Rightarrow> cv (StrC (str_int m)) = Conv m
                                | _ \<Rightarrow> True)) rows"

definition spelled_once :: "(cell \<Rightarrow> conv) \<Rightarrow> nat \<Rightarrow> row list \<Rightarrow> string \<Rightarrow> string \<Rightarrow> bool" where
  "spelled_once cv col rows k s =
     list_all (\<lambda>r. case row_id col r of
                     None \<Rightarrow> True
                   | Some p \<Rightarrow> (case cv (StrC p) of
                                  Conv m \<Rightarrow> str_int m = k \<longrightarrow> p = s
                                | _ \<Rightarrow> True)) rows"

subsection \<open>Quantities\<close>

text \<open>
  \<^verbatim>\<open>re.search(r'-(\d+)[Xx]$', sku)\<close>: the text ends (or ends before one final newline)
  with a hyphen, a run of digits and the letter X. The group is the whole run of digits
  before the X, since the character before the group is the hyphen.
\<close>

definition match_at_end :: "string \<Rightarrow> string option" where
  "match_at_end s =
     (case rev s of
        [] \<Rightarrow> None
      | x # r \<Rightarrow>
          (let ds = takeWhile isdigit r; front = dropWhile isdigit r in
           if (x = CHR ''X'' \<or> x = CHR ''x'') \<and> ds \<noteq> [] \<and> front \<noteq> [] \<and> hd front = CHR ''-''
           then Some (rev ds) else None))"

definition get_multiplier_from_sku :: "string \<Rightarrow> nat option" where
  "get_multiplier_from_sku sku =
     (case match_at_end (if sku \<noteq> [] \<and> last sku = CHR 0x0A then butlast sku else sku) of
        Some g \<Rightarrow> Some (int_of_digits g)
      | None \<Rightarrow> None)"

text \<open>
  The first block of \<^verbatim>\<open>calculate_total_quantity\<close>: the units per set that the table
  gives for the product id, when the column is known, the id resolves and the number is
  positive.
\<close>

definition table_unit_qty ::
  "(cell \<Rightarrow> conv) \<Rightarrow> generator \<Rightarrow> cell \<Rightarrow> py_error + int option" where
  "table_unit_qty cv g product_id =
     (case col_mapping g UnitQtyCol of
        None \<Rightarrow> Inr None
      | Some c \<Rightarrow>
          if safe_str product_id = [] then Inr None
          else
            (case get_row_by_product_id cv (product_id_index g) product_id of
               Inl e \<Rightarrow> Inl e
             | Inr None \<Rightarrow> Inr None
             | Inr (Some r) \<Rightarrow>
                 (case iloc r c of
                    Inl e \<Rightarrow> Inl e
                  | Inr v \<Rightarrow>
                      (case safe_int cv v 0 of
                         Inl e \<Rightarrow> Inl e
                       | Inr unit_qty \<Rightarrow> Inr (if unit_qty > 0 then Some unit_qty else None)))))"

text \<open>
  The second block: the SKU text, replaced by the SKU code of the table when it is empty,
  the column is known and the id resolves.
\<close>

definition substituted_sku ::
  "(cell \<Rightarrow> conv) \<Rightarrow> generator \<Rightarrow> cell \<Rightarrow> cell \<Rightarrow> py_error + string" where
  "substituted_sku cv g sku product_id =
     (let sku_str = safe_str sku in
      case col_mapping g SkuCodeCol of
        None \<Rightarrow> Inr sku_str
      | Some c \<Rightarrow>
          if sku_str = [] \<and> safe_str product_id \<noteq> [] then
            (case get_row_by_product_id cv (product_id_index g) product_id of
               Inl e \<Rightarrow> Inl e
             | Inr None \<Rightarrow> Inr sku_str
             | Inr (Some r) \<Rightarrow>
                 (case iloc r c of Inl e \<Rightarrow> Inl e | Inr v \<Rightarrow> Inr (safe_str v)))
          else Inr sku_str)"

definition calculate_total_quantity ::
  "(cell \<Rightarrow> conv) \<Rightarrow> generator \<Rightarrow> cell \<Rightarrow> cell \<Rightarrow> cell \<Rightarrow> py_error + int" where
  "calculate_total_quantity cv g sku sets product_id =
     (case safe_int cv sets 0 of
        Inl e \<Rightarrow> Inl e
      | Inr sets_int \<Rightarrow>
          if sets_int \<le> 0 then Inr 0
          else
            (case table_unit_qty cv g product_id of
               Inl e \<Rightarrow> Inl e
             | Inr (Some unit_qty) \<Rightarrow> Inr (sets_int * unit_qty)
             | Inr None \<Rightarrow>
                 (case substituted_sku cv g sku product_id of
                    Inl e \<Rightarrow> Inl e
                  | Inr sku_str \<Rightarrow>
                      if sku_str \<noteq> [] then
                        (case get_multiplier_from_sku sku_str of
                           Some m \<Rightarrow> if m \<noteq> 0 then Inr (sets_int * int m) else Inr sets_int
                         | None \<Rightarrow> Inr sets_int)
                      else Inr sets_int)))"

subsection \<open>Names, suppliers, images, barcodes\<close>

text \<open>
  Texts of the source outside ASCII are written as their UTF-8 bytes; the comments give
  the code points.
\<close>

text \<open>The name of the default supplier, "other supplier": U+5176 U+4ED6 U+4F9B U+5E94 U+5546.\<close>

definition OTHER_SUPPLIER :: string where
  "OTHER_SUPPLIER =
     [CHR 0xE5, CHR 0x85, CHR 0xB6, CHR 0xE4, CHR 0xBB, CHR 0x96, CHR 0xE4, CHR 0xBE, CHR 0x9B,
      CHR 0xE5, CHR 0xBA, CHR 0x94, CHR 0xE5, CHR 0x95, CHR 0x86]"

definition extract_sku_prefix :: "cell \<Rightarrow> string" where
  "extract_sku_prefix sku =
     (let sku_str = safe_str sku in
      if CHR ''-'' \<in> set sku_str then before_hyphen sku_str else sku_str)"

fun scan_names :: "string \<Rightarrow> row list \<Rightarrow> string" where
  "scan_names sku_prefix [] = sku_prefix"
| "scan_names sku_prefix (r # rs) =
     (if 2 \<le> length r \<and> \<not> isna (r ! 0) \<and> py_in sku_prefix (py_str (r ! 0))
      then (if safe_str (r ! 1) \<noteq> [] then safe_str (r ! 1) else sku_prefix)
      else scan_names sku_prefix rs)"

definition get_product_name :: "generator \<Rightarrow> string \<Rightarrow> string" where
  "get_product_name g sku_prefix =
     (if sku_prefix = [] then [] else scan_names sku_prefix (sku_name_df g))"

definition get_product_details ::
  "(cell \<Rightarrow> conv) \<Rightarrow> generator \<Rightarrow> cell \<Rightarrow> py_error + string" where
  "get_product_details cv g product_id =
     (case col_mapping g DetailCol of
        None \<Rightarrow> Inr []
      | Some c \<Rightarrow>
          (case get_row_by_product_id cv (product_id_index g) product_id of
             Inl e \<Rightarrow> Inl e
           | Inr None \<Rightarrow> Inr []
           | Inr (Some r) \<Rightarrow>
               (case iloc r c of Inl e \<Rightarrow> Inl e | Inr v \<Rightarrow> Inr (safe_str v))))"

text \<open>The loop of \<^verbatim>\<open>get_supplier_group\<close> over the cache, in its order.\<close>

fun scan_suppliers :: "string \<Rightarrow> (string, string \<times> bool) dict \<Rightarrow> (string \<times> bool) option" where
  "scan_suppliers sku_prefix [] = None"
| "scan_suppliers sku_prefix ((cached_sku, result) # rest) =
     (if py_in sku_prefix cached_sku \<or> py_in cached_sku sku_prefix then Some result
      else scan_suppliers sku_prefix rest)"

definition get_supplier_group :: "generator \<Rightarrow> string \<Rightarrow> string \<times> bool" where
  "get_supplier_group g sku_prefix =
     (if sku_prefix = [] then (OTHER_SUPPLIER, False)
      else case map_of (supplier_sku_cache g) sku_prefix of
             Some result \<Rightarrow> result
           | None \<Rightarrow>
               (case scan_suppliers sku_prefix (supplier_sku_cache g) of
                  Some result \<Rightarrow> result
                | None \<Rightarrow> (OTHER_SUPPLIER, False)))"

definition lower :: "string \<Rightarrow> string" where
  "lower s =
     map (\<lambda>c. if (65::nat) \<le> of_char c \<and> (of_char c :: nat) \<le> 90
              then char_of (of_char c + (32::nat)) else c) s"

fun scan_images :: "string \<Rightarrow> (string, bytes) dict \<Rightarrow> bytes option" where
  "scan_images sku_lower [] = None"
| "scan_images sku_lower ((name, data) # rest) =
     (if py_in sku_lower name \<or> py_in name sku_lower then Some data
      else scan_images sku_lower rest)"

definition find_image_data :: "generator \<Rightarrow> string \<Rightarrow> bytes option" where
  "find_image_data g sku_prefix =
     (if sku_prefix = [] then None
      else let sku_lower = lower sku_prefix in
           case map_of (image_cache g) sku_lower of
             Some data \<Rightarrow> Some data
           | None \<Rightarrow> scan_images sku_lower (image_cache g))"

fun scan_barcodes :: "string \<Rightarrow> (string, bytes) dict \<Rightarrow> bytes option \<times> string option" where
  "scan_barcodes product_id_str [] = (None, None)"
| "scan_barcodes product_id_str ((filename, content) # rest) =
     (if py_in product_id_str filename then (Some content, Some filename)
      else scan_barcodes product_id_str rest)"

definition find_barcode_data :: "generator \<Rightarrow> cell \<Rightarrow> bytes option \<times> string option" where
  "find_barcode_data g product_id =
     (let product_id_str = safe_str product_id in
      if product_id_str = [] then (None, None)
      else scan_barcodes product_id_str (barcode_files_dict g))"

section \<open>Order lines\<close>

text \<open>
  The dictionary \<^verbatim>\<open>order_data\<close> that \<^verbatim>\<open>process_order_data\<close> builds for a row of the
  order table, with its thirteen keys in the order of the source. The last but two is the
  original sequence index of the row.
\<close>

record order =
  o_sku :: cell
  o_name :: string
  o_image :: "bytes option"
  o_prefix :: string
  o_detail :: string
  o_sets :: int
  o_total :: int
  o_product_id :: cell
  o_address :: cell
  o_warehouse :: cell
  o_seq :: int
  barcode_data :: "bytes option"
  barcode_filename :: "string option"

text \<open>
  The body of the loop of \<^verbatim>\<open>process_order_data\<close>, on the cells it reads from the row:
  the line, the supplier and whether the supplier was found. The barcode is kept only
  when its content is not empty (\<^verbatim>\<open>if barcode_data:\<close>).
\<close>

definition order_data ::
  "(cell \<Rightarrow> conv) \<Rightarrow> generator \<Rightarrow> cell \<Rightarrow> cell \<Rightarrow> cell \<Rightarrow> cell \<Rightarrow> cell \<Rightarrow> int
     \<Rightarrow> py_error + (order \<times> string \<times> bool)" where
  "order_data cv g product_id sku sets address warehouse seq =
     (let sku_prefix = extract_sku_prefix sku;
          (supplier, found) = get_supplier_group g sku_prefix
      in case get_product_details cv g product_id of
           Inl e \<Rightarrow> Inl e
         | Inr details \<Rightarrow>
             (case safe_int cv sets 0 of
                Inl e \<Rightarrow> Inl e
              | Inr sets_int \<Rightarrow>
                  (case calculate_total_quantity cv g sku sets product_id of
                     Inl e \<Rightarrow> Inl e
                   | Inr total_qty \<Rightarrow>
                       (let (data, fname) = find_barcode_data g product_id;
                            found_data = (data \<noteq> None \<and> data \<noteq> Some [])
                        in Inr (\<lparr>o_sku = sku,
                                 o_name = get_product_name g sku_prefix,
                                 o_image = find_image_data g sku_prefix,
                                 o_prefix = sku_prefix,
                                 o_detail = details,
                                 o_sets = sets_int,
                                 o_total = total_qty,
                                 o_product_id = product_id,
                                 o_address = address,
                                 o_warehouse = warehouse,
                                 o_seq = seq,
                                 barcode_data = (if found_data then data else None),
                                 barcode_filename = (if found_data then fname else None)\<rparr>,
                               supplier, found)))))"

subsection \<open>Merging\<close>

text \<open>The key \<^verbatim>\<open>f"{warehouse}_{product id}"\<close> of a line.\<close>

definition merge_key :: "order \<Rightarrow> string" where
  "merge_key ord = py_str (o_warehouse ord) @ ''_'' @ py_str (o_product_id ord)"

definition merge_step :: "order \<Rightarrow> (string, order) dict \<Rightarrow> (string, order) dict" where
  "merge_step ord merged =
     (case map_of merged (merge_key ord) of
        None \<Rightarrow> AList.update (merge_key ord) ord merged
      | Some m \<Rightarrow>
          AList.update (merge_key ord)
            (m\<lparr>o_sets := o_sets m + o_sets ord, o_total := o_total m + o_total ord\<rparr>) merged)"

text \<open>\<^verbatim>\<open>sorted\<close> is stable, as \<^const>\<open>sort_key\<close> is.\<close>

definition merge_orders :: "order list \<Rightarrow> order list" where
  "merge_orders orders = sort_key o_seq (map snd (fold merge_step (sort_key o_seq orders) []))"

text \<open>
  The merged line of a key as the specification describes it, to compare with what
  \<^verbatim>\<open>merge_orders\<close> builds: the first line with that key, with the set counts and the
  total quantities of all the lines with that key added up.
\<close>

definition merged_line :: "order list \<Rightarrow> string \<Rightarrow> order" where
  "merged_line ords k =
     (let same = filter (\<lambda>ord. merge_key ord = k) ords in
      (hd same)\<lparr>o_sets := sum_list (map o_sets same), o_total := sum_list (map o_total same)\<rparr>)"

subsection \<open>Grouping by warehouse\<close>

text \<open>
  The groups are a dictionary whose keys are the warehouse cells. A text or a number is
  found among the keys when an equal key is there. A missing value is the float NaN that
  the row holds: it is equal to no key, not even to another NaN, and it is another object
  than the keys that earlier rows gave, so \<^verbatim>\<open>warehouse not in groups\<close> holds for it. The
  line then gets an entry of its own, which the two statements after the test reach
  through the very same object.
\<close>

record shipment_group =
  warehouse_name :: cell
  warehouse_address :: cell
  orders :: "order list"
  min_order :: int

definition group_step :: "order \<Rightarrow> (cell, shipment_group) dict \<Rightarrow> (cell, shipment_group) dict" where
  "group_step ord groups =
     (let warehouse = o_warehouse ord;
          present = (if isna warehouse then None else map_of groups warehouse);
          grp = (case present of
                   None \<Rightarrow> \<lparr>warehouse_name = warehouse, warehouse_address = o_address ord,
                             orders = [], min_order = o_seq ord\<rparr>
                 | Some grp \<Rightarrow> grp);
          grp = grp\<lparr>orders := orders grp @ [ord], min_order := min (min_order grp) (o_seq ord)\<rparr>
      in case present of
           None \<Rightarrow> groups @ [(warehouse, grp)]
         | Some old \<Rightarrow> AList.update warehouse grp groups)"

definition group_by_warehouse :: "order list \<Rightarrow> shipment_group list" where
  "group_by_warehouse ords = sort_key min_order (map snd (fold group_step ords []))"

text \<open>
  The group of a warehouse as the specification describes it, to compare with what
  \<^verbatim>\<open>group_by_warehouse\<close> builds: its members are the lines of the warehouse in the order
  of the input, the address is the one of the first member, and \<open>min_order\<close> is the
  least sequence index among the members.
\<close>

definition group_of :: "order list \<Rightarrow> cell \<Rightarrow> shipment_group" where
  "group_of ords w =
     (let members = filter (\<lambda>ord. o_warehouse ord = w) ords in
      \<lparr>warehouse_name = w, warehouse_address = o_address (hd members),
       orders = members, min_order = Min (o_seq ` set members)\<rparr>)"

text \<open>The group of a single line, which a line without a warehouse name gets.\<close>

definition lone_group :: "order \<Rightarrow> shipment_group" where
  "lone_group ord =
     \<lparr>warehouse_name = o_warehouse ord, warehouse_address = o_address ord,
      orders = [ord], min_order = o_seq ord\<rparr>"

section \<open>The document\<close>

text \<open>
  The data rows that \<^verbatim>\<open>create_excel\<close> writes (the loop from line 387 on): a sheet is
  the value of its cells, by row and column. The title with the date, the header row,
  the images, the merged regions and the formats are not modelled.
\<close>

type_synonym sheet = "nat \<times> nat \<rightharpoonup> cell"

text \<open>The marker of a line without barcode, "no barcode": U+65E0 U+6761 U+7801.\<close>

definition NO_BARCODE :: string where
  "NO_BARCODE = [CHR 0xE6, CHR 0x97, CHR 0xA0, CHR 0xE6, CHR 0x9D, CHR 0xA1, CHR 0xE7, CHR 0xA0, CHR 0x81]"

text \<open>
  The numerals one to ten (U+4E00, U+4E8C, U+4E09, U+56DB, U+4E94, U+516D, U+4E03, U+516B,
  U+4E5D, U+5341), of which \<^verbatim>\<open>CHINESE_NUMBERS\<close> is made, and the two characters
  (U+7B2C, U+5355) around the number of a shipment.
\<close>

definition zh_digits :: "string list" where
  "zh_digits =
     [[CHR 0xE4, CHR 0xB8, CHR 0x80],
      [CHR 0xE4, CHR 0xBA, CHR 0x8C],
      [CHR 0xE4, CHR 0xB8, CHR 0x89],
      [CHR 0xE5, CHR 0x9B, CHR 0x9B],
      [CHR 0xE4, CHR 0xBA, CHR 0x94],
      [CHR 0xE5, CHR 0x85, CHR 0xAD],
      [CHR 0xE4, CHR 0xB8, CHR 0x83],
      [CHR 0xE5, CHR 0x85, CHR 0xAB],
      [CHR 0xE4, CHR 0xB9, CHR 0x9D],
      [CHR 0xE5, CHR 0x8D, CHR 0x81]]"

definition CHINESE_NUMBERS :: "string list" where
  "CHINESE_NUMBERS =
     take 10 zh_digits @ map (\<lambda>d. zh_digits ! 9 @ d) (take 9 zh_digits) @
     [zh_digits ! 1 @ zh_digits ! 9]"

definition order_num :: "nat \<Rightarrow> string" where
  "order_num wh_idx =
     (if wh_idx < length CHINESE_NUMBERS
      then [CHR 0xE7, CHR 0xAC, CHR 0xAC] @ CHINESE_NUMBERS ! wh_idx @ [CHR 0xE5, CHR 0x8D, CHR 0x95]
      else [CHR 0xE7, CHR 0xAC, CHR 0xAC] @ str_nat (wh_idx + 1) @ [CHR 0xE5, CHR 0x8D, CHR 0x95])"

text \<open>Python's truth of \<^verbatim>\<open>order['barcode_data'] and order['barcode_filename']\<close>.\<close>

definition has_barcode :: "order \<Rightarrow> bool" where
  "has_barcode ord =
     (barcode_data ord \<noteq> None \<and> barcode_data ord \<noteq> Some [] \<and>
      barcode_filename ord \<noteq> None \<and> barcode_filename ord \<noteq> Some [])"

definition new_name :: "order \<Rightarrow> string" where
  "new_name ord = str_int (o_sets ord) @ ''--'' @ the (barcode_filename ord)"

definition write_order ::
  "shipment_group \<Rightarrow> nat \<Rightarrow> nat \<Rightarrow> order \<Rightarrow> sheet \<times> (string \<times> bytes) list
     \<Rightarrow> sheet \<times> (string \<times> bytes) list" where
  "write_order wh_info i current_row ord st =
     (let ws = fst st; barcode_files = snd st;
          ws = ws((current_row, 2) \<mapsto> o_sku ord);
          ws = ws((current_row, 3) \<mapsto> StrC (o_name ord));
          ws = ws((current_row, 5) \<mapsto> StrC (o_detail ord));
          ws = ws((current_row, 6) \<mapsto> IntC (o_sets ord));
          ws = ws((current_row, 7) \<mapsto> IntC (o_total ord));
          ws = ws((current_row, 8) \<mapsto> o_product_id ord);
          ws = (if has_barcode ord then ws((current_row, 9) \<mapsto> StrC (new_name ord))
                else ws((current_row, 9) \<mapsto> StrC NO_BARCODE));
          barcode_files = (if has_barcode ord
                           then barcode_files @ [(new_name ord, the (barcode_data ord))]
                           else barcode_files);
          ws = (if i = 0
                then (ws((current_row, 10) \<mapsto> warehouse_address wh_info))
                        ((current_row, 11) \<mapsto> warehouse_name wh_info)
                else ws)
      in (ws, barcode_files))"

fun write_orders ::
  "shipment_group \<Rightarrow> nat \<Rightarrow> nat \<Rightarrow> order list \<Rightarrow> sheet \<times> (string \<times> bytes) list
     \<Rightarrow> nat \<times> sheet \<times> (string \<times> bytes) list" where
  "write_orders wh_info i current_row [] st = (current_row, st)"
| "write_orders wh_info i current_row (ord # rest) st =
     write_orders wh_info (Suc i) (Suc current_row) rest (write_order wh_info i current_row ord st)"

fun write_groups ::
  "nat \<Rightarrow> nat \<Rightarrow> shipment_group list \<Rightarrow> sheet \<times> (string \<times> bytes) list
     \<Rightarrow> nat \<times> sheet \<times> (string \<times> bytes) list" where
  "write_groups wh_idx current_row [] st = (current_row, st)"
| "write_groups wh_idx start_row (wh_info # rest) st =
     (let (current_row, ws, barcode_files) = write_orders wh_info 0 start_row (orders wh_info) st;
          ws = ws((start_row, 1) \<mapsto> StrC (order_num wh_idx))
      in write_groups (Suc wh_idx) current_row rest (ws, barcode_files))"

definition create_excel :: "order list \<Rightarrow> sheet \<times> (string \<times> bytes) list" where
  "create_excel ords = snd (write_groups 0 4 (group_by_warehouse ords) (Map.empty, []))"

section \<open>The run\<close>

text \<open>
  The accepted names of the store column, in the order in which they are tried:
  U+5E97 U+94FA U+540D U+79F0, U+5E97 U+94FA, U+5E97 U+94FA U+540D, U+5E97 U+540D.
\<close>

definition STORE_ALIASES :: "string list" where
  "STORE_ALIASES =
     [[CHR 0xE5, CHR 0xBA, CHR 0x97, CHR 0xE9, CHR 0x93, CHR 0xBA, CHR 0xE5, CHR 0x90, CHR 0x8D, CHR 0xE7, CHR 0xA7, CHR 0xB0],
      [CHR 0xE5, CHR 0xBA, CHR 0x97, CHR 0xE9, CHR 0x93, CHR 0xBA],
      [CHR 0xE5, CHR 0xBA, CHR 0x97, CHR 0xE9, CHR 0x93, CHR 0xBA, CHR 0xE5, CHR 0x90, CHR 0x8D],
      [CHR 0xE5, CHR 0xBA, CHR 0x97, CHR 0xE5, CHR 0x90, CHR 0x8D]]"

text \<open>
  What \<^verbatim>\<open>generate_all_orders\<close> shows to the user with \<^verbatim>\<open>st.error\<close>: the message that
  no store column was found, with \<^verbatim>\<open>list(self.main_df.columns)\<close>.
\<close>

datatype report = NoStoreColumn "string list"

text \<open>
  The start of \<^verbatim>\<open>generate_all_orders\<close>, up to the choice of the store column. What
  follows it (the stores, their documents, the archive) is the parameter \<open>archive\<close>,
  a function of the store column. The result is what was reported and what is returned
  (\<^verbatim>\<open>None\<close> or the archive).
\<close>

definition generate_all_orders :: "(string \<Rightarrow> 'z) \<Rightarrow> string list \<Rightarrow> report list \<times> 'z option" where
  "generate_all_orders archive columns =
     (case find (\<lambda>c. c \<in> set columns) STORE_ALIASES of
        None \<Rightarrow> ([NoStoreColumn columns], None)
      | Some store_col \<Rightarrow> ([], Some (archive store_col)))"

section \<open>Example inputs\<close>

text \<open>
  A small generator: a product-id table with the columns SKU code, product id and units
  per set, two suppliers, one image, one name and one barcode file.
\<close>

definition example_generator :: generator where
  "example_generator =
     \<lparr>col_mapping = [ProductIdCol \<mapsto> 1, SkuCodeCol \<mapsto> 0, UnitQtyCol \<mapsto> 2],
      product_id_index = [(''777'', [StrC ''ABC-6X'', StrC ''777'', IntC 5])],
      supplier_sku_cache =
        [(''AB'', (''Factory'', True)), (''ABC'', (''Mill'', True)), (''XY'', (''Works'', True))],
      image_cache = [(''abc'', ''img'')],
      sku_name_df = [[StrC ''ABC'', StrC ''Widget'']],
      barcode_files_dict = [(''777.pdf'', ''pdf'')]\<rparr>"

text \<open>
  Two product-id tables with the columns of \<open>example_generator\<close>, and the indexes that
  \<^verbatim>\<open>_build_product_id_index\<close> makes of them. The second table writes the id 123 in two
  ways.
\<close>

definition example_col_mapping :: "col_key \<rightharpoonup> nat" where
  "example_col_mapping = [ProductIdCol \<mapsto> 1, SkuCodeCol \<mapsto> 0, UnitQtyCol \<mapsto> 2]"

definition example_table :: "row list" where
  "example_table =
     [[StrC ''ABC-6X'', StrC ''777.0'', IntC 5],
      [StrC ''XY-2x'', StrC ''888'', IntC 0]]"

definition example_index :: "(string, row) dict" where
  "example_index =
     [(''777'', [StrC ''ABC-6X'', StrC ''777.0'', IntC 5]),
      (''777.0'', [StrC ''ABC-6X'', StrC ''777.0'', IntC 5]),
      (''888'', [StrC ''XY-2x'', StrC ''888'', IntC 0])]"

definition two_spellings_table :: "row list" where
  "two_spellings_table =
     [[StrC ''ABC-6X'', StrC ''123.0'', IntC 5],
      [StrC ''XY-2x'', StrC ''123'', IntC 2]]"

definition two_spellings_index :: "(string, row) dict" where
  "two_spellings_index =
     [(''123'', [StrC ''XY-2x'', StrC ''123'', IntC 2]),
      (''123.0'', [StrC ''ABC-6X'', StrC ''123.0'', IntC 5])]"

text \<open>
  Order lines: a line of a warehouse and a product, with its set count, its sequence
  index and, when there is one, its barcode (content and file name).
\<close>

definition example_line :: "string \<Rightarrow> string \<Rightarrow> int \<Rightarrow> int \<Rightarrow> (bytes \<times> string) option \<Rightarrow> order" where
  "example_line w pid s q b =
     \<lparr>o_sku = StrC ''ABC-6X'', o_name = ''Widget'', o_image = None, o_prefix = ''ABC'',
      o_detail = [], o_sets = s, o_total = 6 * s, o_product_id = StrC pid,
      o_address = StrC (w @ '' Road''), o_warehouse = StrC w, o_seq = q,
      barcode_data = map_option fst b, barcode_filename = map_option snd b\<rparr>"

text \<open>Lines of two warehouses, interleaved and not in the order of their indexes.\<close>

definition interleaved_orders :: "order list" where
  "interleaved_orders =
     [example_line ''South'' ''P1'' 1 3 None, example_line ''North'' ''P2'' 2 1 None,
      example_line ''South'' ''P3'' 3 4 None, example_line ''North'' ''P4'' 1 2 None]"

text \<open>
  Two lines of different products with the same warehouse cell \<open>w\<close>: the missing value
  when the warehouse column of the order table is empty, the empty text when the table
  has no warehouse column.
\<close>

definition same_warehouse_lines :: "cell \<Rightarrow> order list" where
  "same_warehouse_lines w =
     [(example_line [] ''P1'' 1 0 None)\<lparr>o_warehouse := w, o_address := w\<rparr>,
      (example_line [] ''P2'' 2 1 None)\<lparr>o_warehouse := w, o_address := w\<rparr>]"

text \<open>
  The columns of an order table without store column, with the column of the sequence
  indexes (U+539F U+59CB U+987A U+5E8F) that the generator adds to it.
\<close>

definition example_columns :: "string list" where
  "example_columns =
     [''SKU'', ''qty'',
      [CHR 0xE5, CHR 0x8E, CHR 0x9F, CHR 0xE5, CHR 0xA7, CHR 0x8B,
       CHR 0xE9, CHR 0xA1, CHR 0xBA, CHR 0xE5, CHR 0xBA, CHR 0x8F]]"

text \<open>A line with a barcode and a line without.\<close>

definition barcode_orders :: "order list" where
  "barcode_orders =
     [example_line ''North'' ''PID123'' 3 0 (Some (''%PDF'', ''PID123.pdf'')),
      example_line ''North'' ''PID9'' 2 1 None]"

text \<open>Two lines of different warehouses and products whose keys are the same text.\<close>

definition colliding_orders :: "order list" where
  "colliding_orders =
     [example_line ''East_2'' ''7'' 2 0 None, example_line ''East'' ''2_7'' 3 1 None]"


section \<open>Substrings and the multiplier pattern\<close>

lemma take_length_eq: "(a = take (length a) xs) = (\<exists>ss. xs = a @ ss)"
  by (metis append_eq_conv_conj append_take_drop_id)

lemma py_in_iff: "py_in a b = (\<exists>ps ss. b = ps @ a @ ss)"
proof (induction b)
  case Nil
  then show ?case by auto
next
  case (Cons c b)
  show ?case
  proof
    assume "py_in a (c # b)"
    then consider "a = take (length a) (c # b)" | "py_in a b" by auto
    then show "\<exists>ps ss. c # b = ps @ a @ ss"
    proof cases
      case 1
      then obtain ss where "c # b = a @ ss" using take_length_eq by blast
      then have "c # b = [] @ a @ ss" by simp
      then show ?thesis by blast
    next
      case 2
      then obtain ps ss where "b = ps @ a @ ss" using Cons.IH by blast
      then have "c # b = (c # ps) @ a @ ss" by simp
      then show ?thesis by blast
    qed
  next
    assume "\<exists>ps ss. c # b = ps @ a @ ss"
    then obtain ps ss where e: "c # b = ps @ a @ ss" by blast
    show "py_in a (c # b)"
    proof (cases ps)
      case Nil
      then have "c # b = a @ ss" using e by simp
      then have "a = take (length a) (c # b)" using take_length_eq by blast
      then show ?thesis by simp
    next
      case (Cons p ps')
      then have "b = ps' @ a @ ss" using e by simp
      then have "py_in a b" using Cons.IH by blast
      then show ?thesis by simp
    qed
  qed
qed

lemma isdigit_hyphen: "\<not> isdigit CHR ''-''"
  by (simp add: isdigit_def)

lemma match_at_end_pattern:
  assumes "ds \<noteq> []" "list_all isdigit ds" "x = CHR ''X'' \<or> x = CHR ''x''"
  shows "match_at_end (front @ CHR ''-'' # ds @ [x]) = Some ds"
proof -
  have d: "\<forall>c\<in>set (rev ds). isdigit c" using assms(2) by (simp add: list_all_iff)
  have r: "rev (front @ CHR ''-'' # ds @ [x]) = x # (rev ds @ CHR ''-'' # rev front)" by simp
  have "takeWhile isdigit (rev ds @ CHR ''-'' # rev front)
          = rev ds @ takeWhile isdigit (CHR ''-'' # rev front)"
    by (rule takeWhile_append2) (use d in blast)
  then have t: "takeWhile isdigit (rev ds @ CHR ''-'' # rev front) = rev ds"
    by (simp add: isdigit_hyphen)
  have "dropWhile isdigit (rev ds @ CHR ''-'' # rev front)
          = dropWhile isdigit (CHR ''-'' # rev front)"
    by (rule dropWhile_append2) (use d in blast)
  then have dr: "dropWhile isdigit (rev ds @ CHR ''-'' # rev front) = CHR ''-'' # rev front"
    by (simp add: isdigit_hyphen)
  have "match_at_end (front @ CHR ''-'' # ds @ [x]) =
          (if (x = CHR ''X'' \<or> x = CHR ''x'') \<and> rev ds \<noteq> [] \<and> CHR ''-'' # rev front \<noteq> []
              \<and> hd (CHR ''-'' # rev front) = CHR ''-''
           then Some (rev (rev ds)) else None)"
    by (simp only: match_at_end_def r list.case Let_def t dr)
  then show ?thesis using assms(1,3) by simp
qed

lemma get_multiplier_pattern:
  assumes "ds \<noteq> []" "list_all isdigit ds" "x = CHR ''X'' \<or> x = CHR ''x''"
  shows "get_multiplier_from_sku (front @ CHR ''-'' # ds @ [x]) = Some (int_of_digits ds)"
proof -
  have "last (front @ CHR ''-'' # ds @ [x]) = x" by simp
  then have "last (front @ CHR ''-'' # ds @ [x]) \<noteq> CHR 0x0A" using assms(3) by auto
  then show ?thesis
    unfolding get_multiplier_from_sku_def using match_at_end_pattern[OF assms] by simp
qed

section \<open>Quantities\<close>

text \<open>
  C1. When the set count parses to a positive integer \<open>n\<close>, the units-per-set column is
  known, the product id resolves to a row of the table and the units per set \<open>q\<close> read
  from that row are positive, \<^verbatim>\<open>calculate_total_quantity\<close> returns \<open>n * q\<close>, whatever the
  SKU is: the table comes before the multiplier of the SKU.
\<close>

theorem table_lookup_first:
  assumes "safe_int cv sets 0 = Inr n" "0 < n"
    and "col_mapping g UnitQtyCol = Some c"
    and "get_row_by_product_id cv (product_id_index g) product_id = Inr (Some r)"
    and "iloc r c = Inr u" "safe_int cv u 0 = Inr q" "0 < q"
  shows "calculate_total_quantity cv g sku sets product_id = Inr (n * q)"
proof -
  have "safe_str product_id \<noteq> []"
    using assms(4) by (auto simp: get_row_by_product_id_def Let_def)
  then have "table_unit_qty cv g product_id = Inr (Some q)"
    using assms by (simp add: table_unit_qty_def)
  then show ?thesis using assms(1,2)
    by (simp add: calculate_total_quantity_def)
qed

text \<open>
  The instance: four sets of the product 777, written \<^verbatim>\<open>777.0\<close>, with five units per set
  and a SKU that ends in \<^verbatim>\<open>-6X\<close>, are 20 units and not 24.
\<close>

theorem table_lookup_first_witness:
  "safe_int int_float (StrC ''4'') 0 = Inr 4 \<and> col_mapping example_generator UnitQtyCol = Some 2 \<and>
   get_multiplier_from_sku ''ABC-6X'' = Some 6 \<and>
   calculate_total_quantity int_float example_generator (StrC ''ABC-6X'') (StrC ''4'') (StrC ''777.0'') = Inr 20"
proof -
  have h1: "safe_int int_float (StrC ''4'') 0 = Inr 4" by code_simp
  have h2: "(0::int) < 4" by simp
  have h3: "col_mapping example_generator UnitQtyCol = Some 2" by (simp add: example_generator_def)
  have h4: "get_row_by_product_id int_float (product_id_index example_generator) (StrC ''777.0'')
            = Inr (Some [StrC ''ABC-6X'', StrC ''777'', IntC 5])" by code_simp
  have h5: "iloc [StrC ''ABC-6X'', StrC ''777'', IntC 5] 2 = Inr (IntC 5)" by code_simp
  have h6: "safe_int int_float (IntC 5) 0 = Inr 5" by code_simp
  have h7: "(0::int) < 5" by simp
  have m: "get_multiplier_from_sku ''ABC-6X'' = Some 6" by code_simp
  show ?thesis
    using table_lookup_first[OF h1 h2 h3 h4 h5 h6 h7, of "StrC ''ABC-6X''"] h1 h3 m by simp
qed

text \<open>
  C5 (as amended). When the set count parses to a positive integer \<open>n\<close>, the table gives
  no units per set, and the SKU (after the substitution from the table) is some text, a
  hyphen, a non-empty run of digits \<open>ds\<close> and \<^verbatim>\<open>X\<close> or \<^verbatim>\<open>x\<close>, and the number
  written by \<open>ds\<close> is not zero, \<^verbatim>\<open>calculate_total_quantity\<close> returns \<open>n\<close> times that
  number.
\<close>

theorem multiplier_fallback:
  assumes "safe_int cv sets 0 = Inr n" "0 < n"
    and "table_unit_qty cv g product_id = Inr None"
    and "substituted_sku cv g sku product_id = Inr (front @ CHR ''-'' # ds @ [x])"
    and "ds \<noteq> []" "list_all isdigit ds" "x = CHR ''X'' \<or> x = CHR ''x''"
    and "int_of_digits ds \<noteq> 0"
  shows "calculate_total_quantity cv g sku sets product_id = Inr (n * int (int_of_digits ds))"
  using assms(1-4,8) get_multiplier_pattern[OF assms(5-7), of front]
  by (simp add: calculate_total_quantity_def)

text \<open>The instance of the specification: three sets of \<^verbatim>\<open>ABC-6X\<close> are 18 units.\<close>

theorem multiplier_fallback_witness:
  "calculate_total_quantity int_float example_generator (StrC ''ABC-6X'') (IntC 3) NaN = Inr 18"
proof -
  have h1: "safe_int int_float (IntC 3) 0 = Inr 3" by code_simp
  have h2: "(0::int) < 3" by simp
  have h3: "table_unit_qty int_float example_generator NaN = Inr None" by code_simp
  have h4: "substituted_sku int_float example_generator (StrC ''ABC-6X'') NaN
            = Inr (''ABC'' @ CHR ''-'' # ''6'' @ [CHR ''X''])" by code_simp
  have h5: "''6'' \<noteq> []" by simp
  have h6: "list_all isdigit ''6''" by code_simp
  have h7: "CHR ''X'' = CHR ''X'' \<or> CHR ''X'' = CHR ''x''" by simp
  have h8: "int_of_digits ''6'' \<noteq> 0" by code_simp
  have v: "int (int_of_digits ''6'') = 6" by code_simp
  show ?thesis
    using multiplier_fallback[OF h1 h2 h3 h4 h5 h6 h7 h8] v by simp
qed

text \<open>
  With the digit group \<^verbatim>\<open>0\<close> the test \<^verbatim>\<open>if multiplier:\<close> fails and the set count is
  returned unchanged: three sets of \<^verbatim>\<open>ABC-0X\<close> are 3 units, not \<open>3 * 0\<close>.
\<close>

theorem multiplier_zero_counterexample:
  "safe_int int_float (IntC 3) 0 = Inr 3 \<and>
   table_unit_qty int_float example_generator NaN = Inr None \<and>
   substituted_sku int_float example_generator (StrC ''ABC-0X'') NaN = Inr (''ABC'' @ CHR ''-'' # ''0'' @ [CHR ''X'']) \<and>
   list_all isdigit ''0'' \<and>
   calculate_total_quantity int_float example_generator (StrC ''ABC-0X'') (IntC 3) NaN = Inr 3 \<and>
   (3::int) \<noteq> 3 * int (int_of_digits ''0'')"
proof -
  have a1: "safe_int int_float (IntC 3) 0 = Inr 3" by code_simp
  have a2: "table_unit_qty int_float example_generator NaN = Inr None" by code_simp
  have a3: "substituted_sku int_float example_generator (StrC ''ABC-0X'') NaN
            = Inr (''ABC'' @ CHR ''-'' # ''0'' @ [CHR ''X''])" by code_simp
  have a4: "list_all isdigit ''0''" by code_simp
  have a5: "calculate_total_quantity int_float example_generator (StrC ''ABC-0X'') (IntC 3) NaN
            = Inr 3" by code_simp
  have a6: "(3::int) \<noteq> 3 * int (int_of_digits ''0'')" by code_simp
  show ?thesis using a1 a2 a3 a4 a5 a6 by blast
qed

section \<open>The empty prefix\<close>

text \<open>
  C9. For the empty SKU prefix the three lookups return at once: the default supplier
  with \<open>found = False\<close>, no image, the empty name. The empty text occurs in every key,
  so the scans of the supplier cache and of the image cache, had they been entered, would
  have returned the first entry.
\<close>

theorem empty_prefix_short_circuit:
  "get_supplier_group g [] = (OTHER_SUPPLIER, False) \<and>
   find_image_data g [] = None \<and>
   get_product_name g [] = [] \<and>
   (\<forall>k. py_in [] k) \<and>
   scan_suppliers [] ((k1, r1) # rest1) = Some r1 \<and>
   scan_images (lower []) ((k2, r2) # rest2) = Some r2"
proof -
  have "\<forall>k. py_in [] k" using py_in_iff by auto
  then show ?thesis
    by (simp add: get_supplier_group_def find_image_data_def get_product_name_def lower_def)
qed

section \<open>The store column\<close>

text \<open>
  C8. When no accepted name of the store column is a column of the order table,
  \<^verbatim>\<open>generate_all_orders\<close> returns nothing (\<^verbatim>\<open>None\<close>, whatever the rest of the method
  would have produced) and reports one error, which holds the columns of the table.
\<close>

theorem no_store_column:
  assumes "\<forall>c\<in>set STORE_ALIASES. c \<notin> set columns"
  shows "generate_all_orders archive columns = ([NoStoreColumn columns], None)"
proof -
  have "find (\<lambda>c. c \<in> set columns) STORE_ALIASES = None"
    using assms by (simp add: find_None_iff)
  then show ?thesis by (simp add: generate_all_orders_def)
qed

text \<open>
  The instance: a table with the two columns \<^verbatim>\<open>SKU\<close> and \<^verbatim>\<open>qty\<close> and the column of
  the sequence indexes.
\<close>

theorem no_store_column_witness:
  "generate_all_orders (\<lambda>store_col. store_col) example_columns
     = ([NoStoreColumn example_columns], None)"
proof -
  have h: "\<forall>c\<in>set STORE_ALIASES. c \<notin> set example_columns" by code_simp
  show ?thesis using no_store_column[OF h] by blast
qed

section \<open>Suppliers\<close>

lemma scan_suppliers_first:
  assumes "\<forall>(k', r')\<in>set front. \<not> py_in p k' \<and> \<not> py_in k' p"
    and "py_in p k \<or> py_in k p"
  shows "scan_suppliers p (front @ (k, result) # rest) = Some result"
  using assms by (induction front) auto

lemma scan_suppliers_none:
  assumes "\<forall>(k, r)\<in>set cache. \<not> py_in p k \<and> \<not> py_in k p"
  shows "scan_suppliers p cache = None"
  using assms by (induction cache) auto

text \<open>
  C6 (as amended). For every non-empty SKU prefix and every supplier cache: when the
  prefix is a key of the cache, \<^verbatim>\<open>get_supplier_group\<close> returns the entry of that key;
  when it is not, it returns the first entry, in the order of the cache, whose key occurs
  in the prefix or in whose key the prefix occurs; when there is no such entry it returns
  the default supplier with \<open>found = False\<close>.
\<close>

theorem supplier_resolution:
  assumes "sku_prefix \<noteq> []"
  shows "(\<forall>result. map_of (supplier_sku_cache g) sku_prefix = Some result
            \<longrightarrow> get_supplier_group g sku_prefix = result) \<and>
         (\<forall>front k result rest.
            map_of (supplier_sku_cache g) sku_prefix = None \<and>
            supplier_sku_cache g = front @ (k, result) # rest \<and>
            (\<forall>(k', r')\<in>set front. \<not> py_in sku_prefix k' \<and> \<not> py_in k' sku_prefix) \<and>
            (py_in sku_prefix k \<or> py_in k sku_prefix)
            \<longrightarrow> get_supplier_group g sku_prefix = result) \<and>
         (map_of (supplier_sku_cache g) sku_prefix = None \<and>
          (\<forall>(k, r)\<in>set (supplier_sku_cache g). \<not> py_in sku_prefix k \<and> \<not> py_in k sku_prefix)
            \<longrightarrow> get_supplier_group g sku_prefix = (OTHER_SUPPLIER, False))"
proof (intro conjI allI impI)
  fix result
  assume "map_of (supplier_sku_cache g) sku_prefix = Some result"
  then show "get_supplier_group g sku_prefix = result"
    using assms by (simp add: get_supplier_group_def)
next
  fix front k result rest
  assume a: "map_of (supplier_sku_cache g) sku_prefix = None \<and>
            supplier_sku_cache g = front @ (k, result) # rest \<and>
            (\<forall>(k', r')\<in>set front. \<not> py_in sku_prefix k' \<and> \<not> py_in k' sku_prefix) \<and>
            (py_in sku_prefix k \<or> py_in k sku_prefix)"
  then have "scan_suppliers sku_prefix (supplier_sku_cache g) = Some result"
    using scan_suppliers_first[of front sku_prefix k result rest] by simp
  moreover have "map_of (supplier_sku_cache g) sku_prefix = None" using a by blast
  ultimately show "get_supplier_group g sku_prefix = result"
    using assms by (simp add: get_supplier_group_def)
next
  assume a: "map_of (supplier_sku_cache g) sku_prefix = None \<and>
          (\<forall>(k, r)\<in>set (supplier_sku_cache g). \<not> py_in sku_prefix k \<and> \<not> py_in k sku_prefix)"
  then have "scan_suppliers sku_prefix (supplier_sku_cache g) = None"
    using scan_suppliers_none by blast
  moreover have "map_of (supplier_sku_cache g) sku_prefix = None" using a by blast
  ultimately show "get_supplier_group g sku_prefix = (OTHER_SUPPLIER, False)"
    using assms by (simp add: get_supplier_group_def)
qed

text \<open>
  The instances: an exact key that is not the first related key, a prefix that contains
  a key, a prefix contained in a key, and a prefix related to no key.
\<close>

theorem supplier_resolution_witness:
  "get_supplier_group example_generator ''ABC'' = (''Mill'', True) \<and>
   get_supplier_group example_generator ''ABCD'' = (''Factory'', True) \<and>
   get_supplier_group example_generator ''X'' = (''Works'', True) \<and>
   get_supplier_group example_generator ''Q'' = (OTHER_SUPPLIER, False)"
proof -
  have c: "supplier_sku_cache example_generator
           = [(''AB'', (''Factory'', True)), (''ABC'', (''Mill'', True)), (''XY'', (''Works'', True))]"
    by (simp add: example_generator_def)
  have r1: "get_supplier_group example_generator ''ABC'' = (''Mill'', True)"
  proof -
    have ne: "''ABC'' \<noteq> []" by simp
    have "map_of (supplier_sku_cache example_generator) ''ABC'' = Some (''Mill'', True)"
      unfolding c by simp
    then show ?thesis
      by (rule conjunct1 [OF supplier_resolution [OF ne], rule_format])
  qed
  have r2: "get_supplier_group example_generator ''ABCD'' = (''Factory'', True)"
  proof -
    have ne: "''ABCD'' \<noteq> []" by simp
    have e: "map_of (supplier_sku_cache example_generator) ''ABCD'' = None"
      unfolding c by simp
    have s: "supplier_sku_cache example_generator
             = [] @ (''AB'', (''Factory'', True)) # [(''ABC'', (''Mill'', True)), (''XY'', (''Works'', True))]"
      unfolding c by simp
    have n: "\<forall>(k', r')\<in>set []. \<not> py_in ''ABCD'' k' \<and> \<not> py_in k' ''ABCD''" by simp
    have m: "py_in ''ABCD'' ''AB'' \<or> py_in ''AB'' ''ABCD''" by code_simp
    from e s n m show ?thesis
      by (intro conjunct1 [OF conjunct2 [OF supplier_resolution [OF ne]], rule_format] conjI)
  qed
  have r3: "get_supplier_group example_generator ''X'' = (''Works'', True)"
  proof -
    have ne: "''X'' \<noteq> []" by simp
    have e: "map_of (supplier_sku_cache example_generator) ''X'' = None"
      unfolding c by simp
    have s: "supplier_sku_cache example_generator
             = [(''AB'', (''Factory'', True)), (''ABC'', (''Mill'', True))] @ (''XY'', (''Works'', True)) # []"
      unfolding c by simp
    have n: "\<forall>(k', r')\<in>set [(''AB'', (''Factory'', True)), (''ABC'', (''Mill'', True))].
               \<not> py_in ''X'' k' \<and> \<not> py_in k' ''X''" by code_simp
    have m: "py_in ''X'' ''XY'' \<or> py_in ''XY'' ''X''" by code_simp
    from e s n m show ?thesis
      by (intro conjunct1 [OF conjunct2 [OF supplier_resolution [OF ne]], rule_format] conjI)
  qed
  have r4: "get_supplier_group example_generator ''Q'' = (OTHER_SUPPLIER, False)"
  proof -
    have ne: "''Q'' \<noteq> []" by simp
    have e: "map_of (supplier_sku_cache example_generator) ''Q'' = None"
      unfolding c by simp
    have n: "\<forall>(k, r)\<in>set (supplier_sku_cache example_generator).
               \<not> py_in ''Q'' k \<and> \<not> py_in k ''Q''" unfolding c by code_simp
    from e n show ?thesis
      by (intro conjunct2 [OF conjunct2 [OF supplier_resolution [OF ne]], rule_format] conjI)
  qed
  show ?thesis using r1 r2 r3 r4 by blast
qed

text \<open>
  For the empty prefix the claim fails as it was stated: the empty text is no key and
  occurs in the first key, yet the result is the default supplier and not the first
  entry.
\<close>

theorem supplier_empty_prefix_counterexample:
  "map_of (supplier_sku_cache example_generator) [] = None \<and>
   supplier_sku_cache example_generator
     = [] @ (''AB'', (''Factory'', True)) # [(''ABC'', (''Mill'', True)), (''XY'', (''Works'', True))] \<and>
   py_in [] ''AB'' \<and>
   get_supplier_group example_generator [] \<noteq> (''Factory'', True)"
  by (simp add: example_generator_def get_supplier_group_def)

section \<open>Merging\<close>

lemma sum_insort_key:
  "sum_list (map f (insort_key k x xs)) = (f x :: int) + sum_list (map f xs)"
  by (induction xs) auto

lemma sum_sort_key: "sum_list (map f (sort_key k xs)) = (sum_list (map f xs) :: int)"
  by (induction xs) (auto simp: sum_insort_key)

lemma sum_update_None:
  "map_of al k = None \<Longrightarrow>
   sum_list (map (\<lambda>p. f (snd p)) (AList.update k v al)) = sum_list (map (\<lambda>p. f (snd p)) al) + (f v :: int)"
  by (induction al) (auto split: if_splits)

lemma sum_update_Some:
  "map_of al k = Some e \<Longrightarrow>
   sum_list (map (\<lambda>p. f (snd p)) (AList.update k v al))
     = sum_list (map (\<lambda>p. f (snd p)) al) - f e + (f v :: int)"
  by (induction al) (auto split: if_splits)

lemma merge_step_sets:
  "sum_list (map (\<lambda>p. o_sets (snd p)) (merge_step ord merged))
     = sum_list (map (\<lambda>p. o_sets (snd p)) merged) + o_sets ord"
  by (cases "map_of merged (merge_key ord)")
     (simp_all add: merge_step_def sum_update_None sum_update_Some)

lemma merge_step_total:
  "sum_list (map (\<lambda>p. o_total (snd p)) (merge_step ord merged))
     = sum_list (map (\<lambda>p. o_total (snd p)) merged) + o_total ord"
  by (cases "map_of merged (merge_key ord)")
     (simp_all add: merge_step_def sum_update_None sum_update_Some)

lemma fold_merge_sets:
  "sum_list (map (\<lambda>p. o_sets (snd p)) (fold merge_step ords merged))
     = sum_list (map (\<lambda>p. o_sets (snd p)) merged) + sum_list (map o_sets ords)"
  by (induction ords arbitrary: merged) (simp_all add: merge_step_sets)

lemma fold_merge_total:
  "sum_list (map (\<lambda>p. o_total (snd p)) (fold merge_step ords merged))
     = sum_list (map (\<lambda>p. o_total (snd p)) merged) + sum_list (map o_total ords)"
  by (induction ords arbitrary: merged) (simp_all add: merge_step_total)

text \<open>
  C10. \<^verbatim>\<open>merge_orders\<close> conserves the quantities: the set counts of the merged lines add
  up to the set counts of the input, and so do the total quantities.
\<close>

theorem merge_conserves_quantities:
  "sum_list (map o_sets (merge_orders ords)) = sum_list (map o_sets ords) \<and>
   sum_list (map o_total (merge_orders ords)) = sum_list (map o_total ords)"
proof -
  have "sum_list (map o_sets (merge_orders ords))
        = sum_list (map (\<lambda>p. o_sets (snd p)) (fold merge_step (sort_key o_seq ords) []))"
    by (simp add: merge_orders_def sum_sort_key comp_def)
  also have "\<dots> = sum_list (map o_sets (sort_key o_seq ords))"
    by (simp add: fold_merge_sets)
  finally have s: "sum_list (map o_sets (merge_orders ords)) = sum_list (map o_sets ords)"
    by (simp add: sum_sort_key)
  have "sum_list (map o_total (merge_orders ords))
        = sum_list (map (\<lambda>p. o_total (snd p)) (fold merge_step (sort_key o_seq ords) []))"
    by (simp add: merge_orders_def sum_sort_key comp_def)
  also have "\<dots> = sum_list (map o_total (sort_key o_seq ords))"
    by (simp add: fold_merge_total)
  finally have t: "sum_list (map o_total (merge_orders ords)) = sum_list (map o_total ords)"
    by (simp add: sum_sort_key)
  show ?thesis using s t by blast
qed

text \<open>
  What \<^verbatim>\<open>merge_orders\<close> does with every list of lines: it returns one line for each key
  of the input, the first line of that key (in the order of the sequence indexes) with
  the sums of the set counts and of the total quantities of the lines of that key, and
  it returns them in the order of their sequence indexes.
\<close>

lemma merged_line_snoc_same:
  assumes "merge_key ord = k" "k \<in> merge_key ` set seen"
  shows "merged_line (seen @ [ord]) k =
         (merged_line seen k)\<lparr>o_sets := o_sets (merged_line seen k) + o_sets ord,
                             o_total := o_total (merged_line seen k) + o_total ord\<rparr>"
proof -
  let ?m = "filter (\<lambda>x. merge_key x = k) seen"
  have ne: "?m \<noteq> []" using assms(2) by (auto simp: filter_empty_conv)
  then have "hd (?m @ [ord]) = hd ?m" by simp
  then show ?thesis using assms(1) by (simp add: merged_line_def Let_def)
qed

lemma merged_line_snoc_new:
  assumes "merge_key ord = k" "k \<notin> merge_key ` set seen"
  shows "merged_line (seen @ [ord]) k = ord"
proof -
  have "filter (\<lambda>x. merge_key x = k) seen = []"
    using assms(2) by (auto simp: filter_empty_conv)
  then show ?thesis using assms(1) by (simp add: merged_line_def Let_def)
qed

lemma merged_line_snoc_other:
  assumes "merge_key ord \<noteq> k"
  shows "merged_line (seen @ [ord]) k = merged_line seen k"
  using assms by (simp add: merged_line_def Let_def)

lemma merge_step_map_of:
  assumes "\<forall>k. map_of merged k = (if k \<in> merge_key ` set seen then Some (merged_line seen k) else None)"
  shows "map_of (merge_step ord merged) k =
         (if k \<in> merge_key ` set (seen @ [ord]) then Some (merged_line (seen @ [ord]) k) else None)"
proof (cases "k = merge_key ord")
  case True
  show ?thesis
  proof (cases "k \<in> merge_key ` set seen")
    case in_seen: True
    then have "map_of merged (merge_key ord) = Some (merged_line seen k)"
      using assms True by simp
    then show ?thesis
      using True merged_line_snoc_same[of ord k seen] in_seen
      by (simp add: merge_step_def update_conv')
  next
    case new: False
    then have "map_of merged (merge_key ord) = None"
      using assms True by simp
    then show ?thesis
      using True merged_line_snoc_new[of ord k seen] new
      by (simp add: merge_step_def update_conv')
  qed
next
  case False
  then have "merged_line (seen @ [ord]) k = merged_line seen k"
    using merged_line_snoc_other[of ord k seen] by simp
  then show ?thesis using False assms
    by (cases "map_of merged (merge_key ord)") (auto simp add: merge_step_def update_conv')
qed

lemma merge_step_distinct:
  "distinct (map fst merged) \<Longrightarrow> distinct (map fst (merge_step ord merged))"
  by (cases "map_of merged (merge_key ord)") (simp_all add: merge_step_def distinct_update)

lemma fold_merge_step:
  assumes "distinct (map fst merged)"
    and "\<forall>k. map_of merged k = (if k \<in> merge_key ` set seen then Some (merged_line seen k) else None)"
  shows "distinct (map fst (fold merge_step ords merged)) \<and>
         (\<forall>k. map_of (fold merge_step ords merged) k =
            (if k \<in> merge_key ` set (seen @ ords) then Some (merged_line (seen @ ords) k) else None))"
  using assms
proof (induction ords arbitrary: merged seen)
  case Nil
  then show ?case by simp
next
  case (Cons ord ords)
  have d: "distinct (map fst (merge_step ord merged))"
    using Cons.prems(1) by (rule merge_step_distinct)
  have m: "\<forall>k. map_of (merge_step ord merged) k =
         (if k \<in> merge_key ` set (seen @ [ord]) then Some (merged_line (seen @ [ord]) k) else None)"
    using merge_step_map_of[OF Cons.prems(2)] by blast
  show ?case using Cons.IH[OF d m] by simp
qed

lemma merged_dict_set:
  "distinct (map fst (fold merge_step ords [])) \<and>
   set (fold merge_step ords []) = (\<lambda>k. (k, merged_line ords k)) ` merge_key ` set ords"
proof -
  let ?M = "fold merge_step ords []"
  have dm: "distinct (map fst ?M) \<and>
     (\<forall>k. map_of ?M k = (if k \<in> merge_key ` set ords then Some (merged_line ords k) else None))"
    using fold_merge_step[of "[]" "[]" ords] by simp
  then have d: "distinct (map fst ?M)" by blast
  have m: "map_of ?M k = (if k \<in> merge_key ` set ords then Some (merged_line ords k) else None)" for k
    using dm by blast
  have "(k, l) \<in> set ?M \<longleftrightarrow> (k \<in> merge_key ` set ords \<and> l = merged_line ords k)" for k l
    using map_of_eq_Some_iff[OF d, of k l] m[of k] by (auto split: if_splits)
  then have "set ?M = (\<lambda>k. (k, merged_line ords k)) ` merge_key ` set ords" by auto
  then show ?thesis using d by blast
qed

lemma merge_key_merged_line:
  assumes "k \<in> merge_key ` set ords"
  shows "merge_key (merged_line ords k) = k"
proof -
  let ?m = "filter (\<lambda>x. merge_key x = k) ords"
  have "?m \<noteq> []" using assms by (auto simp: filter_empty_conv)
  then have "hd ?m \<in> set ?m" by (rule hd_in_set)
  then have "merge_key (hd ?m) = k" by simp
  then show ?thesis by (simp add: merged_line_def Let_def merge_key_def)
qed

lemma merge_orders_by_key:
  "set (merge_orders ords) = merged_line (sort_key o_seq ords) ` merge_key ` set ords \<and>
   distinct (map merge_key (merge_orders ords)) \<and>
   sorted (map o_seq (merge_orders ords))"
proof -
  let ?S = "sort_key o_seq ords"
  let ?M = "fold merge_step ?S []"
  have d: "distinct (map fst ?M)"
    and s: "set ?M = (\<lambda>k. (k, merged_line ?S k)) ` merge_key ` set ?S"
    using merged_dict_set[of ?S] by blast+
  have keys: "merge_key (snd p) = fst p" if "p \<in> set ?M" for p
    using that merge_key_merged_line[of _ ?S] unfolding s by auto
  then have "map (\<lambda>p. merge_key (snd p)) ?M = map fst ?M" by (intro map_cong refl)
  then have "map merge_key (map snd ?M) = map fst ?M" by (simp add: comp_def)
  then have "distinct (map merge_key (map snd ?M))" using d by (simp only:)
  then have dk: "distinct (map merge_key (merge_orders ords))"
    unfolding merge_orders_def by (simp only: distinct_map set_sort distinct_sort)
  have "set (merge_orders ords) = snd ` set ?M" by (simp add: merge_orders_def)
  then have st: "set (merge_orders ords) = merged_line ?S ` merge_key ` set ords"
    unfolding s by (simp add: image_image)
  have so: "sorted (map o_seq (merge_orders ords))" by (simp add: merge_orders_def)
  show ?thesis using st dk so by blast
qed

text \<open>
  C2. The claim is that two lines are combined exactly when they have the same warehouse
  name and the same product id. \<^verbatim>\<open>merge_orders\<close> compares the texts
  \<^verbatim>\<open>f"{warehouse}_{product id}"\<close>: the line of warehouse \<^verbatim>\<open>East_2\<close> and product \<^verbatim>\<open>7\<close>
  and the line of warehouse \<^verbatim>\<open>East\<close> and product \<^verbatim>\<open>2_7\<close> have the key \<^verbatim>\<open>East_2_7\<close>
  both, and are combined into one line of five sets that keeps the fields of the first,
  though neither the warehouses nor the products are the same.
\<close>

theorem merge_key_collision:
  "o_warehouse (colliding_orders ! 0) \<noteq> o_warehouse (colliding_orders ! 1) \<and>
   o_product_id (colliding_orders ! 0) \<noteq> o_product_id (colliding_orders ! 1) \<and>
   merge_orders colliding_orders = [(colliding_orders ! 0)\<lparr>o_sets := 5, o_total := 30\<rparr>]"
proof -
  have a1: "o_warehouse (colliding_orders ! 0) \<noteq> o_warehouse (colliding_orders ! 1)" by code_simp
  have a2: "o_product_id (colliding_orders ! 0) \<noteq> o_product_id (colliding_orders ! 1)" by code_simp
  have a3: "merge_orders colliding_orders = [(colliding_orders ! 0)\<lparr>o_sets := 5, o_total := 30\<rparr>]"
    by code_simp
  show ?thesis using a1 a2 a3 by blast
qed

section \<open>Grouping by warehouse\<close>

lemma group_of_snoc_same:
  assumes "o_warehouse ord = w" "w \<in> o_warehouse ` set seen"
  shows "group_of (seen @ [ord]) w =
         (group_of seen w)\<lparr>orders := orders (group_of seen w) @ [ord],
                            min_order := min (min_order (group_of seen w)) (o_seq ord)\<rparr>"
proof -
  let ?m = "filter (\<lambda>x. o_warehouse x = w) seen"
  have ne: "?m \<noteq> []" using assms(2) by (auto simp: filter_empty_conv)
  have fin: "finite (o_seq ` set ?m)" by (rule finite_imageI) (rule finite_set)
  have nes: "o_seq ` set ?m \<noteq> {}" using ne by (metis image_is_empty set_empty)
  have "o_seq ` set (?m @ [ord]) = insert (o_seq ord) (o_seq ` set ?m)" by auto
  then have "Min (o_seq ` set (?m @ [ord])) = min (o_seq ord) (Min (o_seq ` set ?m))"
    using Min_insert[OF fin nes] by (simp only:)
  then have "Min (o_seq ` set (?m @ [ord])) = min (Min (o_seq ` set ?m)) (o_seq ord)"
    by (simp only: min.commute)
  moreover have "hd (?m @ [ord]) = hd ?m" using ne by simp
  ultimately show ?thesis using assms(1) by (simp add: group_of_def Let_def)
qed

lemma group_of_snoc_new:
  assumes "o_warehouse ord = w" "w \<notin> o_warehouse ` set seen"
  shows "group_of (seen @ [ord]) w =
         \<lparr>warehouse_name = w, warehouse_address = o_address ord,
          orders = [] @ [ord], min_order = min (o_seq ord) (o_seq ord)\<rparr>"
proof -
  have "filter (\<lambda>x. o_warehouse x = w) seen = []"
    using assms(2) by (auto simp: filter_empty_conv)
  then show ?thesis using assms(1) by (simp add: group_of_def Let_def)
qed

lemma group_of_snoc_other:
  assumes "o_warehouse ord \<noteq> w"
  shows "group_of (seen @ [ord]) w = group_of seen w"
  using assms by (simp add: group_of_def Let_def)

lemma update_absent: "map_of al k = None \<Longrightarrow> AList.update k v al = al @ [(k, v)]"
  by (induction al) (auto split: if_splits)

lemma named_update:
  "k \<noteq> NaN \<Longrightarrow>
   filter (\<lambda>p. fst p \<noteq> NaN) (AList.update k v al) = AList.update k v (filter (\<lambda>p. fst p \<noteq> NaN) al)"
  by (induction al) auto

lemma unnamed_update:
  "k \<noteq> NaN \<Longrightarrow>
   filter (\<lambda>p. fst p = NaN) (AList.update k v al) = filter (\<lambda>p. fst p = NaN) al"
  by (induction al) auto

lemma map_of_named:
  "k \<noteq> NaN \<Longrightarrow> map_of (filter (\<lambda>p. fst p \<noteq> NaN) al) k = map_of al k"
  by (induction al) auto

lemma group_step_unnamed_line:
  assumes "o_warehouse ord = NaN"
  shows "group_step ord groups = groups @ [(NaN, lone_group ord)]"
  using assms by (simp add: group_step_def isna_def lone_group_def Let_def)

lemma group_step_named_line:
  assumes "o_warehouse ord \<noteq> NaN"
  shows "group_step ord groups =
         AList.update (o_warehouse ord)
           ((case map_of groups (o_warehouse ord) of
               None \<Rightarrow> \<lparr>warehouse_name = o_warehouse ord, warehouse_address = o_address ord,
                         orders = [], min_order = o_seq ord\<rparr>
             | Some grp \<Rightarrow> grp)
            \<lparr>orders := orders (case map_of groups (o_warehouse ord) of
                                 None \<Rightarrow> \<lparr>warehouse_name = o_warehouse ord,
                                           warehouse_address = o_address ord,
                                           orders = [], min_order = o_seq ord\<rparr>
                               | Some grp \<Rightarrow> grp) @ [ord],
              min_order := min (min_order (case map_of groups (o_warehouse ord) of
                                 None \<Rightarrow> \<lparr>warehouse_name = o_warehouse ord,
                                           warehouse_address = o_address ord,
                                           orders = [], min_order = o_seq ord\<rparr>
                               | Some grp \<Rightarrow> grp)) (o_seq ord)\<rparr>)
           groups"
proof (cases "map_of groups (o_warehouse ord)")
  case None
  then show ?thesis using assms
    by (simp add: group_step_def isna_def Let_def update_absent)
next
  case (Some g)
  then show ?thesis using assms
    by (simp add: group_step_def isna_def Let_def)
qed

lemma group_step_invariant:
  assumes d: "distinct (map fst (filter (\<lambda>p. fst p \<noteq> NaN) groups))"
    and m: "\<forall>w. map_of (filter (\<lambda>p. fst p \<noteq> NaN) groups) w =
              (if w \<noteq> NaN \<and> w \<in> o_warehouse ` set seen then Some (group_of seen w) else None)"
    and u: "map snd (filter (\<lambda>p. fst p = NaN) groups) =
              map lone_group (filter (\<lambda>l. o_warehouse l = NaN) seen)"
  shows "distinct (map fst (filter (\<lambda>p. fst p \<noteq> NaN) (group_step ord groups))) \<and>
         (\<forall>w. map_of (filter (\<lambda>p. fst p \<noteq> NaN) (group_step ord groups)) w =
              (if w \<noteq> NaN \<and> w \<in> o_warehouse ` set (seen @ [ord])
               then Some (group_of (seen @ [ord]) w) else None)) \<and>
         map snd (filter (\<lambda>p. fst p = NaN) (group_step ord groups)) =
              map lone_group (filter (\<lambda>l. o_warehouse l = NaN) (seen @ [ord]))"
proof (cases "o_warehouse ord = NaN")
  case True
  have s: "group_step ord groups = groups @ [(NaN, lone_group ord)]"
    using True by (rule group_step_unnamed_line)
  have "\<forall>w. map_of (filter (\<lambda>p. fst p \<noteq> NaN) groups) w =
              (if w \<noteq> NaN \<and> w \<in> o_warehouse ` set (seen @ [ord])
               then Some (group_of (seen @ [ord]) w) else None)"
  proof
    fix w
    show "map_of (filter (\<lambda>p. fst p \<noteq> NaN) groups) w =
              (if w \<noteq> NaN \<and> w \<in> o_warehouse ` set (seen @ [ord])
               then Some (group_of (seen @ [ord]) w) else None)"
    proof (cases "w = NaN")
      case wn: True
      then show ?thesis using m by simp
    next
      case False
      then have "group_of (seen @ [ord]) w = group_of seen w"
        using True group_of_snoc_other[of ord w seen] by simp
      moreover have "(w \<in> o_warehouse ` set (seen @ [ord])) = (w \<in> o_warehouse ` set seen)"
        using True False by auto
      ultimately show ?thesis using m False by simp
    qed
  qed
  then show ?thesis using d u True by (simp add: s)
next
  case False
  let ?w = "o_warehouse ord"
  let ?N = "filter (\<lambda>p. fst p \<noteq> NaN) groups"
  let ?new = "\<lparr>warehouse_name = ?w, warehouse_address = o_address ord,
               orders = [], min_order = o_seq ord\<rparr>"
  let ?old = "case map_of groups ?w of None \<Rightarrow> ?new | Some grp \<Rightarrow> grp"
  let ?grp = "?old\<lparr>orders := orders ?old @ [ord], min_order := min (min_order ?old) (o_seq ord)\<rparr>"
  have s: "group_step ord groups = AList.update ?w ?grp groups"
    using False by (rule group_step_named_line)
  have n: "filter (\<lambda>p. fst p \<noteq> NaN) (group_step ord groups) = AList.update ?w ?grp ?N"
    unfolding s using False by (rule named_update)
  have un: "filter (\<lambda>p. fst p = NaN) (group_step ord groups) = filter (\<lambda>p. fst p = NaN) groups"
    unfolding s using False by (rule unnamed_update)
  have look: "map_of groups ?w = map_of ?N ?w"
    using map_of_named[OF False, of groups] by simp
  have c1: "distinct (map fst (filter (\<lambda>p. fst p \<noteq> NaN) (group_step ord groups)))"
    unfolding n using d by (rule distinct_update)
  have c3: "map snd (filter (\<lambda>p. fst p = NaN) (group_step ord groups)) =
              map lone_group (filter (\<lambda>l. o_warehouse l = NaN) (seen @ [ord]))"
    unfolding un using u False by simp
  have grp: "?grp = group_of (seen @ [ord]) ?w"
  proof (cases "?w \<in> o_warehouse ` set seen")
    case True
    then have "map_of groups ?w = Some (group_of seen ?w)"
      using m False look by simp
    then show ?thesis
      using group_of_snoc_same[of ord ?w seen] True by simp
  next
    case new: False
    then have "map_of groups ?w = None"
      using m look by simp
    then show ?thesis
      using group_of_snoc_new[of ord ?w seen] new by simp
  qed
  have c2: "\<forall>w. map_of (filter (\<lambda>p. fst p \<noteq> NaN) (group_step ord groups)) w =
              (if w \<noteq> NaN \<and> w \<in> o_warehouse ` set (seen @ [ord])
               then Some (group_of (seen @ [ord]) w) else None)"
  proof
    fix w
    show "map_of (filter (\<lambda>p. fst p \<noteq> NaN) (group_step ord groups)) w =
              (if w \<noteq> NaN \<and> w \<in> o_warehouse ` set (seen @ [ord])
               then Some (group_of (seen @ [ord]) w) else None)"
    proof (cases "w = ?w")
      case True
      then show ?thesis unfolding n using False grp by (simp add: update_conv')
    next
      case other: False
      then have "group_of (seen @ [ord]) w = group_of seen w"
        using group_of_snoc_other[of ord w seen] by simp
      moreover have "(w \<in> o_warehouse ` set (seen @ [ord])) = (w \<in> o_warehouse ` set seen)"
        using other by auto
      ultimately show ?thesis unfolding n using m other by (simp add: update_conv')
    qed
  qed
  show ?thesis using c1 c2 c3 by blast
qed

lemma fold_group_step:
  assumes "distinct (map fst (filter (\<lambda>p. fst p \<noteq> NaN) groups))"
    and "\<forall>w. map_of (filter (\<lambda>p. fst p \<noteq> NaN) groups) w =
              (if w \<noteq> NaN \<and> w \<in> o_warehouse ` set seen then Some (group_of seen w) else None)"
    and "map snd (filter (\<lambda>p. fst p = NaN) groups) =
              map lone_group (filter (\<lambda>l. o_warehouse l = NaN) seen)"
  shows "distinct (map fst (filter (\<lambda>p. fst p \<noteq> NaN) (fold group_step ords groups))) \<and>
         (\<forall>w. map_of (filter (\<lambda>p. fst p \<noteq> NaN) (fold group_step ords groups)) w =
              (if w \<noteq> NaN \<and> w \<in> o_warehouse ` set (seen @ ords)
               then Some (group_of (seen @ ords) w) else None)) \<and>
         map snd (filter (\<lambda>p. fst p = NaN) (fold group_step ords groups)) =
              map lone_group (filter (\<lambda>l. o_warehouse l = NaN) (seen @ ords))"
  using assms
proof (induction ords arbitrary: groups seen)
  case Nil
  then show ?case by simp
next
  case (Cons ord ords)
  note step = group_step_invariant[OF Cons.prems, of ord]
  show ?case
    using Cons.IH[OF conjunct1[OF step] conjunct1[OF conjunct2[OF step]] conjunct2[OF conjunct2[OF step]]]
    by simp
qed

lemma groups_dict:
  "distinct (map fst (filter (\<lambda>p. fst p \<noteq> NaN) (fold group_step ords []))) \<and>
   (\<forall>w. map_of (filter (\<lambda>p. fst p \<noteq> NaN) (fold group_step ords [])) w =
      (if w \<noteq> NaN \<and> w \<in> o_warehouse ` set ords then Some (group_of ords w) else None)) \<and>
   map snd (filter (\<lambda>p. fst p = NaN) (fold group_step ords [])) =
      map lone_group (filter (\<lambda>l. o_warehouse l = NaN) ords)"
  using fold_group_step[of "[]" "[]" ords] by simp

lemma named_groups_set:
  "set (filter (\<lambda>p. fst p \<noteq> NaN) (fold group_step ords [])) =
     (\<lambda>w. (w, group_of ords w)) ` {w \<in> o_warehouse ` set ords. w \<noteq> NaN}"
proof -
  define N where "N = filter (\<lambda>p. fst p \<noteq> NaN) (fold group_step ords [])"
  have d: "distinct (map fst N)" unfolding N_def using groups_dict by blast
  have m: "map_of N w = (if w \<noteq> NaN \<and> w \<in> o_warehouse ` set ords then Some (group_of ords w) else None)" for w
    unfolding N_def using groups_dict by blast
  have k: "(w, g) \<in> set N \<longleftrightarrow> (w \<noteq> NaN \<and> w \<in> o_warehouse ` set ords \<and> g = group_of ords w)" for w g
    using map_of_eq_Some_iff[OF d, of w g] m[of w] by (auto split: if_splits)
  have "set N = (\<lambda>w. (w, group_of ords w)) ` {w \<in> o_warehouse ` set ords. w \<noteq> NaN}"
  proof (rule set_eqI)
    fix p :: "cell \<times> shipment_group"
    obtain w g where p: "p = (w, g)" by (cases p) auto
    show "p \<in> set N \<longleftrightarrow> p \<in> (\<lambda>w. (w, group_of ords w)) ` {w \<in> o_warehouse ` set ords. w \<noteq> NaN}"
      unfolding p k by auto
  qed
  then show ?thesis unfolding N_def .
qed

lemma unnamed_groups_set:
  "set (filter (\<lambda>p. fst p = NaN) (fold group_step ords [])) =
     (\<lambda>l. (NaN, lone_group l)) ` {l \<in> set ords. o_warehouse l = NaN}"
proof -
  define U where "U = filter (\<lambda>p. fst p = NaN) (fold group_step ords [])"
  define L where "L = filter (\<lambda>l. o_warehouse l = NaN) ords"
  have u: "map snd U = map lone_group L"
    unfolding U_def L_def using groups_dict by blast
  have s: "snd ` set U = lone_group ` set L"
    using arg_cong[OF u, of set] by (simp only: set_map)
  have f: "fst p = NaN" if "p \<in> set U" for p
    using that unfolding U_def by simp
  have "set U = (\<lambda>l. (NaN, lone_group l)) ` set L"
  proof (rule set_eqI)
    fix p :: "cell \<times> shipment_group"
    show "p \<in> set U \<longleftrightarrow> p \<in> (\<lambda>l. (NaN, lone_group l)) ` set L"
    proof
      assume p: "p \<in> set U"
      then have "snd p \<in> lone_group ` set L" using s by blast
      then obtain l where l: "l \<in> set L" "snd p = lone_group l" by blast
      have "p = (NaN, lone_group l)" using f[OF p] l(2) by (simp add: prod_eq_iff)
      then show "p \<in> (\<lambda>l. (NaN, lone_group l)) ` set L" using l(1) by blast
    next
      assume "p \<in> (\<lambda>l. (NaN, lone_group l)) ` set L"
      then obtain l where l: "l \<in> set L" "p = (NaN, lone_group l)" by blast
      then have "lone_group l \<in> snd ` set U" using s by blast
      then obtain q where q: "q \<in> set U" "snd q = lone_group l" by force
      have "q = p" using f[OF q(1)] q(2) l(2) by (simp add: prod_eq_iff)
      then show "p \<in> set U" using q(1) by simp
    qed
  qed
  moreover have "set L = {l \<in> set ords. o_warehouse l = NaN}" unfolding L_def by simp
  ultimately show ?thesis unfolding U_def by simp
qed

lemma groups_dict_parts:
  "set (fold group_step ords []) =
     set (filter (\<lambda>p. fst p \<noteq> NaN) (fold group_step ords [])) \<union>
     set (filter (\<lambda>p. fst p = NaN) (fold group_step ords []))"
  by auto

lemma set_group_by_warehouse:
  "set (group_by_warehouse ords) =
     group_of ords ` {w \<in> o_warehouse ` set ords. w \<noteq> NaN} \<union>
     lone_group ` {l \<in> set ords. o_warehouse l = NaN}"
proof -
  have "set (group_by_warehouse ords) = snd ` set (fold group_step ords [])"
    by (simp add: group_by_warehouse_def)
  also have "\<dots> = snd ` set (filter (\<lambda>p. fst p \<noteq> NaN) (fold group_step ords [])) \<union>
                   snd ` set (filter (\<lambda>p. fst p = NaN) (fold group_step ords []))"
    using groups_dict_parts[of ords] by (metis image_Un)
  finally show ?thesis
    unfolding named_groups_set unnamed_groups_set by (simp add: image_image)
qed

lemma groups_dict_names:
  assumes "p \<in> set (fold group_step ords [])"
  shows "warehouse_name (snd p) = fst p"
proof -
  have "p \<in> set (filter (\<lambda>p. fst p \<noteq> NaN) (fold group_step ords [])) \<or>
        p \<in> set (filter (\<lambda>p. fst p = NaN) (fold group_step ords []))"
    using assms by auto
  then show ?thesis
    unfolding named_groups_set unnamed_groups_set
    by (auto simp: group_of_def lone_group_def Let_def)
qed

lemma sorted_group_by_warehouse: "sorted (map min_order (group_by_warehouse ords))"
  by (simp add: group_by_warehouse_def)

lemma distinct_parts: "distinct (filter P xs) \<Longrightarrow> distinct (filter (\<lambda>x. \<not> P x) xs) \<Longrightarrow> distinct xs"
  by (induction xs) (auto split: if_splits)

lemma lone_group_inj: "lone_group a = lone_group b \<Longrightarrow> a = b"
proof -
  assume "lone_group a = lone_group b"
  then have "orders (lone_group a) = orders (lone_group b)" by simp
  then show "a = b" by (simp add: lone_group_def)
qed

lemma distinct_group_by_warehouse:
  assumes "distinct ords"
  shows "distinct (group_by_warehouse ords)"
proof -
  let ?G = "fold group_step ords []"
  have "distinct (map fst (filter (\<lambda>p. fst p \<noteq> NaN) ?G))" using groups_dict by blast
  then have n: "distinct (filter (\<lambda>p. fst p \<noteq> NaN) ?G)" by (simp add: distinct_map)
  have "distinct (filter (\<lambda>l. o_warehouse l = NaN) ords)" using assms by simp
  then have "distinct (map lone_group (filter (\<lambda>l. o_warehouse l = NaN) ords))"
    by (simp add: distinct_map inj_on_def lone_group_inj)
  then have "distinct (map snd (filter (\<lambda>p. fst p = NaN) ?G))" using groups_dict by simp
  then have "distinct (filter (\<lambda>p. fst p = NaN) ?G)" by (simp add: distinct_map)
  then have u: "distinct (filter (\<lambda>p. \<not> fst p \<noteq> NaN) ?G)" by simp
  have dG: "distinct ?G" using n u by (rule distinct_parts)
  have "inj_on snd (set ?G)"
  proof (rule inj_onI)
    fix p q
    assume p: "p \<in> set ?G" and q: "q \<in> set ?G" and e: "snd p = snd q"
    have "fst p = fst q"
      using groups_dict_names[OF p] groups_dict_names[OF q] e by simp
    then show "p = q" using e by (simp add: prod_eq_iff)
  qed
  then have "distinct (map snd ?G)" using dG by (simp add: distinct_map)
  then show ?thesis by (simp add: group_by_warehouse_def)
qed

lemma min_order_member:
  assumes "w \<in> o_warehouse ` set ords"
  shows "\<exists>ord\<in>set ords. o_warehouse ord = w \<and> o_seq ord = min_order (group_of ords w)"
proof -
  let ?m = "filter (\<lambda>x. o_warehouse x = w) ords"
  have ne: "?m \<noteq> []" using assms by (auto simp: filter_empty_conv)
  have fin: "finite (o_seq ` set ?m)" by (rule finite_imageI) (rule finite_set)
  have nes: "o_seq ` set ?m \<noteq> {}" using ne by (metis image_is_empty set_empty)
  have "Min (o_seq ` set ?m) \<in> o_seq ` set ?m" by (rule Min_in[OF fin nes])
  then obtain x where "x \<in> set ?m" "o_seq x = Min (o_seq ` set ?m)" by auto
  moreover have "min_order (group_of ords w) = Min (o_seq ` set ?m)"
    by (simp add: group_of_def Let_def)
  ultimately show ?thesis by auto
qed

lemma group_representative:
  assumes "g \<in> set (group_by_warehouse ords)"
  shows "\<exists>a\<in>set ords. o_seq a = min_order g \<and> o_warehouse a = warehouse_name g \<and>
           (if o_warehouse a = NaN then g = lone_group a else g = group_of ords (o_warehouse a))"
proof -
  consider w where "w \<in> o_warehouse ` set ords" "w \<noteq> NaN" "g = group_of ords w"
    | l where "l \<in> set ords" "o_warehouse l = NaN" "g = lone_group l"
    using assms unfolding set_group_by_warehouse by auto
  then show ?thesis
  proof cases
    case 1
    obtain a where a: "a \<in> set ords" "o_warehouse a = w" "o_seq a = min_order (group_of ords w)"
      using min_order_member[OF 1(1)] by blast
    have "warehouse_name g = w" using 1(3) by (simp add: group_of_def Let_def)
    then show ?thesis using a 1 by auto
  next
    case 2
    have "o_seq l = min_order g" "warehouse_name g = NaN"
      using 2 by (simp_all add: lone_group_def)
    then show ?thesis using 2 by auto
  qed
qed

lemma min_order_distinct:
  assumes "distinct (map o_seq ords)"
  shows "distinct (map min_order (group_by_warehouse ords))"
proof -
  have inj: "inj_on o_seq (set ords)" and dl: "distinct ords"
    using assms by (simp_all add: distinct_map)
  have "inj_on min_order (set (group_by_warehouse ords))"
  proof (rule inj_onI)
    fix g h
    assume g: "g \<in> set (group_by_warehouse ords)" and h: "h \<in> set (group_by_warehouse ords)"
      and e: "min_order g = min_order h"
    obtain a where a: "a \<in> set ords" "o_seq a = min_order g"
      "if o_warehouse a = NaN then g = lone_group a else g = group_of ords (o_warehouse a)"
      using group_representative[OF g] by blast
    obtain b where b: "b \<in> set ords" "o_seq b = min_order h"
      "if o_warehouse b = NaN then h = lone_group b else h = group_of ords (o_warehouse b)"
      using group_representative[OF h] by blast
    have "o_seq a = o_seq b" using a(2) b(2) e by simp
    then have "a = b" by (rule inj_onD[OF inj _ a(1) b(1)])
    then show "g = h" using a(3) b(3) by (simp split: if_splits)
  qed
  then show ?thesis using distinct_group_by_warehouse[OF dl] by (simp add: distinct_map)
qed

lemma count_unnamed_groups:
  "length (filter (\<lambda>g. warehouse_name g = NaN) (group_by_warehouse ords)) =
   length (filter (\<lambda>l. o_warehouse l = NaN) ords)"
proof -
  let ?G = "fold group_step ords []"
  have "filter (\<lambda>g. warehouse_name g = NaN) (map snd ?G)
        = map snd (filter (\<lambda>p. warehouse_name (snd p) = NaN) ?G)"
    by (simp add: filter_map comp_def)
  also have "\<dots> = map snd (filter (\<lambda>p. fst p = NaN) ?G)"
    using groups_dict_names[of _ ords] by (metis (mono_tags, lifting) filter_cong)
  finally have "length (filter (\<lambda>g. warehouse_name g = NaN) (map snd ?G))
                = length (filter (\<lambda>l. o_warehouse l = NaN) ords)"
    using groups_dict[of ords] by (metis length_map)
  then show ?thesis
    by (simp add: group_by_warehouse_def filter_sort)
qed

lemma group_cases:
  assumes "g \<in> set (group_by_warehouse ords)"
  shows "(\<exists>w. w \<in> o_warehouse ` set ords \<and> w \<noteq> NaN \<and> g = group_of ords w) \<or>
         (\<exists>l\<in>set ords. o_warehouse l = NaN \<and> g = lone_group l)"
  using assms unfolding set_group_by_warehouse by blast

lemma group_of_fields:
  assumes "w \<in> o_warehouse ` set ords"
  shows "warehouse_name (group_of ords w) = w"
    and "orders (group_of ords w) = filter (\<lambda>ord. o_warehouse ord = w) ords"
    and "orders (group_of ords w) \<noteq> []"
    and "warehouse_address (group_of ords w) = o_address (hd (orders (group_of ords w)))"
    and "min_order (group_of ords w) = Min (o_seq ` set (orders (group_of ords w)))"
proof -
  show "warehouse_name (group_of ords w) = w" by (simp add: group_of_def Let_def)
  show o: "orders (group_of ords w) = filter (\<lambda>ord. o_warehouse ord = w) ords"
    by (simp add: group_of_def Let_def)
  show "orders (group_of ords w) \<noteq> []"
    unfolding o using assms by (auto simp: filter_empty_conv)
  show "warehouse_address (group_of ords w) = o_address (hd (orders (group_of ords w)))"
    unfolding o by (simp add: group_of_def Let_def)
  show "min_order (group_of ords w) = Min (o_seq ` set (orders (group_of ords w)))"
    unfolding o by (simp add: group_of_def Let_def)
qed

lemma lone_group_fields:
  "warehouse_name (lone_group l) = o_warehouse l"
  "orders (lone_group l) = [l]"
  "warehouse_address (lone_group l) = o_address (hd (orders (lone_group l)))"
  "min_order (lone_group l) = Min (o_seq ` set (orders (lone_group l)))"
  by (simp_all add: lone_group_def)

lemma names_group_by_warehouse:
  "warehouse_name ` set (group_by_warehouse ords) = o_warehouse ` set ords"
proof (rule set_eqI)
  fix w
  show "w \<in> warehouse_name ` set (group_by_warehouse ords) \<longleftrightarrow> w \<in> o_warehouse ` set ords"
  proof
    assume "w \<in> warehouse_name ` set (group_by_warehouse ords)"
    then obtain g where g: "g \<in> set (group_by_warehouse ords)" "w = warehouse_name g" by blast
    from group_cases[OF g(1)] show "w \<in> o_warehouse ` set ords"
    proof
      assume "\<exists>v. v \<in> o_warehouse ` set ords \<and> v \<noteq> NaN \<and> g = group_of ords v"
      then obtain v where "v \<in> o_warehouse ` set ords" "g = group_of ords v" by blast
      then show ?thesis using g(2) group_of_fields(1)[of v ords] by simp
    next
      assume "\<exists>l\<in>set ords. o_warehouse l = NaN \<and> g = lone_group l"
      then obtain l where "l \<in> set ords" "g = lone_group l" by blast
      then show ?thesis using g(2) lone_group_fields(1)[of l] by simp
    qed
  next
    assume w: "w \<in> o_warehouse ` set ords"
    show "w \<in> warehouse_name ` set (group_by_warehouse ords)"
    proof (cases "w = NaN")
      case True
      then obtain l where l: "l \<in> set ords" "o_warehouse l = NaN" using w by auto
      then have "lone_group l \<in> set (group_by_warehouse ords)"
        unfolding set_group_by_warehouse by blast
      moreover have "warehouse_name (lone_group l) = w"
        using l(2) True lone_group_fields(1)[of l] by simp
      ultimately show ?thesis by (metis imageI)
    next
      case False
      then have "group_of ords w \<in> set (group_by_warehouse ords)"
        unfolding set_group_by_warehouse using w by blast
      moreover have "warehouse_name (group_of ords w) = w"
        using group_of_fields(1)[OF w] .
      ultimately show ?thesis by (metis imageI)
    qed
  qed
qed

text \<open>
  What \<^verbatim>\<open>group_by_warehouse\<close> does with every list of lines. The groups come in
  non-decreasing order of \<open>min_order\<close>, strictly increasing when the sequence indexes of
  the lines are distinct. The names of the groups are the warehouse cells of the lines.
  There is one group for each warehouse name, whose members are the lines of that
  warehouse in the order of the input, and one group for each line without a warehouse
  name, whose only member is that line. The address of a group is the address of its
  first member and its \<open>min_order\<close> is the least sequence index among its members.
\<close>

lemma groups_of_named_and_unnamed:
  "sorted (map min_order (group_by_warehouse ords)) \<and>
   (distinct (map o_seq ords) \<longrightarrow> sorted_wrt (<) (map min_order (group_by_warehouse ords))) \<and>
   warehouse_name ` set (group_by_warehouse ords) = o_warehouse ` set ords \<and>
   (\<forall>g\<in>set (group_by_warehouse ords). \<forall>h\<in>set (group_by_warehouse ords).
      warehouse_name g = warehouse_name h \<and> warehouse_name g \<noteq> NaN \<longrightarrow> g = h) \<and>
   length (filter (\<lambda>g. warehouse_name g = NaN) (group_by_warehouse ords)) =
     length (filter (\<lambda>l. o_warehouse l = NaN) ords) \<and>
   (\<forall>g\<in>set (group_by_warehouse ords).
      (warehouse_name g \<noteq> NaN \<longrightarrow>
         orders g = filter (\<lambda>ord. o_warehouse ord = warehouse_name g) ords) \<and>
      (warehouse_name g = NaN \<longrightarrow>
         (\<exists>l\<in>set ords. o_warehouse l = NaN \<and> orders g = [l])) \<and>
      orders g \<noteq> [] \<and>
      warehouse_address g = o_address (hd (orders g)) \<and>
      min_order g = Min (o_seq ` set (orders g)))"
proof (intro conjI ballI impI)
  show "sorted (map min_order (group_by_warehouse ords))"
    by (rule sorted_group_by_warehouse)
next
  assume "distinct (map o_seq ords)"
  then show "sorted_wrt (<) (map min_order (group_by_warehouse ords))"
    using min_order_distinct sorted_group_by_warehouse by (simp add: strict_sorted_iff)
next
  show "warehouse_name ` set (group_by_warehouse ords) = o_warehouse ` set ords"
    by (rule names_group_by_warehouse)
next
  fix g h
  assume g: "g \<in> set (group_by_warehouse ords)" and h: "h \<in> set (group_by_warehouse ords)"
    and e: "warehouse_name g = warehouse_name h \<and> warehouse_name g \<noteq> NaN"
  have "g = group_of ords (warehouse_name g)"
    using group_cases[OF g] e group_of_fields(1)[of _ ords] lone_group_fields(1) by metis
  moreover have "h = group_of ords (warehouse_name h)"
    using group_cases[OF h] e group_of_fields(1)[of _ ords] lone_group_fields(1) by metis
  ultimately show "g = h" using e by simp
next
  show "length (filter (\<lambda>g. warehouse_name g = NaN) (group_by_warehouse ords)) =
     length (filter (\<lambda>l. o_warehouse l = NaN) ords)"
    by (rule count_unnamed_groups)
next
  fix g
  assume g: "g \<in> set (group_by_warehouse ords)" and n: "warehouse_name g \<noteq> NaN"
  show "orders g = filter (\<lambda>ord. o_warehouse ord = warehouse_name g) ords"
    using group_cases[OF g] n group_of_fields(1,2)[of _ ords] lone_group_fields(1) by metis
next
  fix g
  assume g: "g \<in> set (group_by_warehouse ords)" and n: "warehouse_name g = NaN"
  from group_cases[OF g] show "\<exists>l\<in>set ords. o_warehouse l = NaN \<and> orders g = [l]"
  proof
    assume "\<exists>w. w \<in> o_warehouse ` set ords \<and> w \<noteq> NaN \<and> g = group_of ords w"
    then show ?thesis using n group_of_fields(1)[of _ ords] by metis
  next
    assume "\<exists>l\<in>set ords. o_warehouse l = NaN \<and> g = lone_group l"
    then show ?thesis using lone_group_fields(2) by metis
  qed
next
  fix g
  assume g: "g \<in> set (group_by_warehouse ords)"
  show "orders g \<noteq> []"
    using group_cases[OF g] group_of_fields(3)[of _ ords] lone_group_fields(2)
    by (metis list.distinct(1))
next
  fix g
  assume g: "g \<in> set (group_by_warehouse ords)"
  show "warehouse_address g = o_address (hd (orders g))"
    using group_cases[OF g] group_of_fields(4)[of _ ords] lone_group_fields(3) by metis
next
  fix g
  assume g: "g \<in> set (group_by_warehouse ords)"
  show "min_order g = Min (o_seq ` set (orders g))"
    using group_cases[OF g] group_of_fields(5)[of _ ords] lone_group_fields(4) by metis
qed

text \<open>
  South (3), North (1), South (4), North (2): the dictionary holds South before North;
  the result has North, with least index 1, before South, with least index 3.
\<close>

lemma interleaved_groups:
  "map warehouse_name (group_by_warehouse interleaved_orders) = [StrC ''North'', StrC ''South''] \<and>
   map min_order (group_by_warehouse interleaved_orders) = [1, 3] \<and>
   map orders (group_by_warehouse interleaved_orders)
     = [[interleaved_orders ! 1, interleaved_orders ! 3], [interleaved_orders ! 0, interleaved_orders ! 2]]"
proof -
  have a1: "map warehouse_name (group_by_warehouse interleaved_orders) = [StrC ''North'', StrC ''South'']"
    by code_simp
  have a2: "map min_order (group_by_warehouse interleaved_orders) = [1, 3]" by code_simp
  have a3: "map orders (group_by_warehouse interleaved_orders)
     = [[interleaved_orders ! 1, interleaved_orders ! 3], [interleaved_orders ! 0, interleaved_orders ! 2]]"
    by code_simp
  show ?thesis using a1 a2 a3 by blast
qed

text \<open>
  C4. The claim is that the lines are put in one bucket for each warehouse name, for every
  list of lines. \<^verbatim>\<open>group_by_warehouse\<close> keys its dictionary with the warehouse cell as it
  is: two lines whose warehouse cell is empty are two missing values, no key is found for
  the second, and the two lines come out as two groups, each with its own shipment
  number. Two lines whose warehouse is the empty text, which is what
  \<^verbatim>\<open>process_order_data\<close> gives to every line when the table has no warehouse column, come
  out as one group.
\<close>

theorem unnamed_lines_split:
  "map o_warehouse (same_warehouse_lines NaN) = [NaN, NaN] \<and>
   map orders (group_by_warehouse (same_warehouse_lines NaN))
     = [[same_warehouse_lines NaN ! 0], [same_warehouse_lines NaN ! 1]] \<and>
   map orders (group_by_warehouse (same_warehouse_lines (StrC [])))
     = [same_warehouse_lines (StrC [])]"
proof -
  have a1: "map o_warehouse (same_warehouse_lines NaN) = [NaN, NaN]" by code_simp
  have a2: "map orders (group_by_warehouse (same_warehouse_lines NaN))
            = [[same_warehouse_lines NaN ! 0], [same_warehouse_lines NaN ! 1]]" by code_simp
  have a3: "map orders (group_by_warehouse (same_warehouse_lines (StrC [])))
            = [same_warehouse_lines (StrC [])]" by code_simp
  show ?thesis using a1 a2 a3 by blast
qed

section \<open>The barcode column\<close>

lemma write_order_col9:
  "fst (write_order wh i r ord st) (j, 9) =
     (if j = r then Some (StrC (if has_barcode ord then new_name ord else NO_BARCODE))
      else fst st (j, 9))"
  by (simp add: write_order_def Let_def)

lemma write_order_files:
  "snd (write_order wh i r ord st) =
     snd st @ (if has_barcode ord then [(new_name ord, the (barcode_data ord))] else [])"
  by (simp add: write_order_def Let_def)

lemma write_orders_row: "fst (write_orders wh i r os st) = r + length os"
  by (induction os arbitrary: i r st) simp_all

lemma write_orders_files:
  "snd (snd (write_orders wh i r os st)) =
     snd st @ map (\<lambda>l. (new_name l, the (barcode_data l))) (filter has_barcode os)"
  by (induction os arbitrary: i r st) (simp_all add: write_order_files)

lemma write_orders_col9:
  "fst (snd (write_orders wh i r os st)) (j, 9) =
     (if r \<le> j \<and> j < r + length os
      then Some (StrC (if has_barcode (os ! (j - r)) then new_name (os ! (j - r)) else NO_BARCODE))
      else fst st (j, 9))"
proof (induction os arbitrary: i r st)
  case Nil
  then show ?case by auto
next
  case (Cons ord os)
  let ?st = "write_order wh i r ord st"
  have ih: "fst (snd (write_orders wh (Suc i) (Suc r) os ?st)) (j, 9) =
     (if Suc r \<le> j \<and> j < Suc r + length os
      then Some (StrC (if has_barcode (os ! (j - Suc r)) then new_name (os ! (j - Suc r)) else NO_BARCODE))
      else fst ?st (j, 9))"
    by (rule Cons.IH)
  consider "j < r" | "j = r" | "Suc r \<le> j" by linarith
  then show ?case
  proof cases
    case 1
    then show ?thesis using ih by (simp add: write_order_col9)
  next
    case 2
    then show ?thesis using ih by (simp add: write_order_col9)
  next
    case 3
    then have "(ord # os) ! (j - r) = os ! (j - Suc r)"
      by (simp add: nth_Cons')
    moreover have "j \<noteq> r" using 3 by simp
    ultimately show ?thesis using 3 ih by (simp add: write_order_col9)
  qed
qed

lemma write_groups_files:
  "snd (snd (write_groups n r gs st)) =
     snd st @ map (\<lambda>l. (new_name l, the (barcode_data l))) (filter has_barcode (concat (map orders gs)))"
proof (induction gs arbitrary: n r st)
  case Nil
  then show ?case by simp
next
  case (Cons g gs)
  obtain r' ws' fs' where w: "write_orders g 0 r (orders g) st = (r', ws', fs')"
    by (cases "write_orders g 0 r (orders g) st") auto
  have "fs' = snd (snd (write_orders g 0 r (orders g) st))" using w by simp
  then have f: "fs' = snd st @ map (\<lambda>l. (new_name l, the (barcode_data l))) (filter has_barcode (orders g))"
    by (simp add: write_orders_files)
  show ?case by (simp add: w Cons.IH f)
qed

lemma write_groups_col9:
  "fst (snd (write_groups n r gs st)) (j, 9) =
     (if r \<le> j \<and> j < r + length (concat (map orders gs))
      then Some (StrC (if has_barcode (concat (map orders gs) ! (j - r))
                       then new_name (concat (map orders gs) ! (j - r)) else NO_BARCODE))
      else fst st (j, 9))"
proof (induction gs arbitrary: n r st)
  case Nil
  then show ?case by auto
next
  case (Cons g gs)
  obtain r' ws' fs' where w: "write_orders g 0 r (orders g) st = (r', ws', fs')"
    by (cases "write_orders g 0 r (orders g) st") auto
  have r': "r' = r + length (orders g)"
    using write_orders_row[of g 0 r "orders g" st] w by simp
  have ws': "ws' (j, 9) =
     (if r \<le> j \<and> j < r + length (orders g)
      then Some (StrC (if has_barcode (orders g ! (j - r)) then new_name (orders g ! (j - r)) else NO_BARCODE))
      else fst st (j, 9))"
    using write_orders_col9[of g 0 r "orders g" st j] w by simp
  have step: "fst (snd (write_groups n r (g # gs) st)) (j, 9)
        = fst (snd (write_groups (Suc n) r' gs (ws'((r, 1) \<mapsto> StrC (order_num n)), fs'))) (j, 9)"
    by (simp add: w)
  show ?case
  proof (cases "r \<le> j \<and> j < r + length (orders g)")
    case True
    then have "j - r < length (orders g)" by linarith
    then have "(orders g @ concat (map orders gs)) ! (j - r) = orders g ! (j - r)"
      by (simp add: nth_append)
    then show ?thesis using True step ws' by (simp add: Cons.IH r' del: write_groups.simps)
  next
    case False
    show ?thesis
    proof (cases "r' \<le> j")
      case True
      then have "\<not> j - r < length (orders g)" and "j - r - length (orders g) = j - r'"
        using r' by linarith+
      then have "(orders g @ concat (map orders gs)) ! (j - r) = concat (map orders gs) ! (j - r')"
        by (simp add: nth_append)
      then show ?thesis using True False r' step ws' by (simp add: Cons.IH del: write_groups.simps)
    next
      case False
      then have "j < r" using \<open>\<not> (r \<le> j \<and> j < r + length (orders g))\<close> r' by auto
      then show ?thesis using r' step ws' by (simp add: Cons.IH del: write_groups.simps)
    qed
  qed
qed

text \<open>
  The lines that \<^verbatim>\<open>process_order_data\<close> builds carry either no barcode at all or a
  content and a file name that are both not empty: these are the two cases of C7.
\<close>

lemma scan_barcodes_cases:
  "scan_barcodes p files = (None, None) \<or>
   (\<exists>content filename. scan_barcodes p files = (Some content, Some filename) \<and> py_in p filename)"
proof (induction files)
  case Nil
  then show ?case by simp
next
  case (Cons a files)
  obtain filename content where a: "a = (filename, content)" by (cases a) auto
  show ?case
  proof (cases "py_in p filename")
    case True
    then have "scan_barcodes p (a # files) = (Some content, Some filename)"
      by (simp add: a)
    then show ?thesis using True by blast
  next
    case False
    then have "scan_barcodes p (a # files) = scan_barcodes p files"
      by (simp add: a)
    then show ?thesis using Cons.IH by simp
  qed
qed

lemma order_data_barcode:
  assumes "order_data cv g product_id sku sets address warehouse seq = Inr (line, supplier, found)"
  shows "(barcode_data line = None \<and> barcode_filename line = None) \<or> has_barcode line"
proof -
  obtain data fname where f: "find_barcode_data g product_id = (data, fname)"
    by (cases "find_barcode_data g product_id") auto
  have ok: "(data = None \<and> fname = None) \<or>
            (\<exists>content filename. data = Some content \<and> fname = Some filename \<and> filename \<noteq> [])"
  proof (cases "safe_str product_id = []")
    case True
    then show ?thesis using f by (simp add: find_barcode_data_def)
  next
    case False
    then have s: "scan_barcodes (safe_str product_id) (barcode_files_dict g) = (data, fname)"
      using f by (simp add: find_barcode_data_def)
    show ?thesis
      using scan_barcodes_cases[of "safe_str product_id" "barcode_files_dict g"] False
      unfolding s by (cases fname) auto
  qed
  have b: "barcode_data line = (if data \<noteq> None \<and> data \<noteq> Some [] then data else None)"
    and n: "barcode_filename line = (if data \<noteq> None \<and> data \<noteq> Some [] then fname else None)"
    using assms f
    by (auto simp: order_data_def Let_def split: sum.splits prod.splits if_splits)
  show ?thesis using ok b n by (auto simp: has_barcode_def)
qed

text \<open>
  C7. Let \<open>lines\<close> be the lines of the document in the order of its rows (the members
  of the groups, group after group); the row of line \<open>i\<close> is row \<open>4 + i\<close> and the
  barcode column is column 9. The emitted files are the pairs of the new name and the
  content of the lines that have a barcode, in the order of the rows, and nothing else.
  When line \<open>i\<close> has a barcode with content \<open>d\<close> and file name \<open>f\<close>, its barcode cell
  holds the text of its set count, two hyphens and \<open>f\<close>, and this text with \<open>d\<close> is
  among the emitted files. When line \<open>i\<close> has no barcode, its cell holds the marker and
  the line adds nothing to the files.
\<close>

theorem barcode_column:
  assumes "create_excel ords = (ws, files)"
    and "lines = concat (map orders (group_by_warehouse ords))"
  shows "files = map (\<lambda>l. (new_name l, the (barcode_data l))) (filter has_barcode lines) \<and>
         (\<forall>i<length lines.
            (\<forall>d f. barcode_data (lines ! i) = Some d \<and> d \<noteq> [] \<and>
                   barcode_filename (lines ! i) = Some f \<and> f \<noteq> [] \<longrightarrow>
                   ws (4 + i, 9) = Some (StrC (str_int (o_sets (lines ! i)) @ ''--'' @ f)) \<and>
                   (str_int (o_sets (lines ! i)) @ ''--'' @ f, d) \<in> set files) \<and>
            (barcode_data (lines ! i) = None \<longrightarrow>
                   ws (4 + i, 9) = Some (StrC NO_BARCODE) \<and> \<not> has_barcode (lines ! i)))"
proof -
  let ?st = "write_groups 0 4 (group_by_warehouse ords) (Map.empty, [])"
  have ws: "ws = fst (snd ?st)" and fs: "files = snd (snd ?st)"
    using assms(1) by (simp_all add: create_excel_def)
  have files: "files = map (\<lambda>l. (new_name l, the (barcode_data l))) (filter has_barcode lines)"
    unfolding fs assms(2) by (simp add: write_groups_files)
  have cell: "ws (4 + i, 9) = Some (StrC (if has_barcode (lines ! i) then new_name (lines ! i) else NO_BARCODE))"
    if "i < length lines" for i
    unfolding ws assms(2) using that write_groups_col9[of 0 4 "group_by_warehouse ords" "(Map.empty, [])" "4 + i"]
    by (simp add: assms(2))
  show ?thesis
  proof (intro conjI allI impI)
    show "files = map (\<lambda>l. (new_name l, the (barcode_data l))) (filter has_barcode lines)"
      by (rule files)
  next
    fix i d f
    assume i: "i < length lines"
      and b: "barcode_data (lines ! i) = Some d \<and> d \<noteq> [] \<and>
              barcode_filename (lines ! i) = Some f \<and> f \<noteq> []"
    then have h: "has_barcode (lines ! i)" by (simp add: has_barcode_def)
    have n: "new_name (lines ! i) = str_int (o_sets (lines ! i)) @ ''--'' @ f"
      using b by (simp add: new_name_def)
    show "ws (4 + i, 9) = Some (StrC (str_int (o_sets (lines ! i)) @ ''--'' @ f))"
      using cell[OF i] h n by simp
    have "lines ! i \<in> set (filter has_barcode lines)" using i h by simp
    then have "(new_name (lines ! i), the (barcode_data (lines ! i))) \<in> set files"
      unfolding files by (simp add: image_iff) blast
    then show "(str_int (o_sets (lines ! i)) @ ''--'' @ f, d) \<in> set files"
      using n b by simp
  next
    fix i
    assume i: "i < length lines" and b: "barcode_data (lines ! i) = None"
    then have h: "\<not> has_barcode (lines ! i)" by (simp add: has_barcode_def)
    show "ws (4 + i, 9) = Some (StrC NO_BARCODE)" using cell[OF i] h by simp
    show "\<not> has_barcode (lines ! i)" by (rule h)
  qed
qed

text \<open>
  The instance of the specification: three sets with the file \<^verbatim>\<open>PID123.pdf\<close> give
  \<^verbatim>\<open>3--PID123.pdf\<close> in the cell of row 4 and in the emitted files; the line of row 5 has
  no barcode.
\<close>

theorem barcode_column_witness:
  "fst (create_excel barcode_orders) (4, 9) = Some (StrC ''3--PID123.pdf'') \<and>
   (''3--PID123.pdf'', ''%PDF'') \<in> set (snd (create_excel barcode_orders)) \<and>
   fst (create_excel barcode_orders) (5, 9) = Some (StrC NO_BARCODE) \<and>
   snd (create_excel barcode_orders) = [(''3--PID123.pdf'', ''%PDF'')]"
proof -
  have c: "create_excel barcode_orders = (fst (create_excel barcode_orders), snd (create_excel barcode_orders))"
    by simp
  have l: "barcode_orders = concat (map orders (group_by_warehouse barcode_orders))" by code_simp
  note T = barcode_column[OF c l]
  have len: "length barcode_orders = 2" by code_simp
  have b0: "barcode_data (barcode_orders ! 0) = Some ''%PDF'' \<and> ''%PDF'' \<noteq> [] \<and>
            barcode_filename (barcode_orders ! 0) = Some ''PID123.pdf'' \<and> ''PID123.pdf'' \<noteq> []"
    by code_simp
  have s0: "str_int (o_sets (barcode_orders ! 0)) @ ''--'' @ ''PID123.pdf'' = ''3--PID123.pdf''"
    by code_simp
  have b1: "barcode_data (barcode_orders ! 1) = None" by code_simp
  have i0: "0 < length barcode_orders" and i1: "1 < length barcode_orders" using len by simp_all
  have r0: "fst (create_excel barcode_orders) (4 + 0, 9)
              = Some (StrC (str_int (o_sets (barcode_orders ! 0)) @ ''--'' @ ''PID123.pdf'')) \<and>
            (str_int (o_sets (barcode_orders ! 0)) @ ''--'' @ ''PID123.pdf'', ''%PDF'')
              \<in> set (snd (create_excel barcode_orders))"
    using T i0 b0 by blast
  have r1: "fst (create_excel barcode_orders) (4 + 1, 9) = Some (StrC NO_BARCODE)"
    using T i1 b1 by blast
  have fl: "map (\<lambda>l. (new_name l, the (barcode_data l))) (filter has_barcode barcode_orders)
            = [(''3--PID123.pdf'', ''%PDF'')]" by code_simp
  have r2: "snd (create_excel barcode_orders) = [(''3--PID123.pdf'', ''%PDF'')]"
    using T fl by simp
  show ?thesis using r0 r1 r2 s0 by simp
qed

section \<open>The product-id index\<close>

lemma isspace_code: "isspace c \<Longrightarrow> (of_char c :: nat) \<le> 32"
  by (auto simp: isspace_def)

lemma digit_chr_not_space: "d < 10 \<Longrightarrow> \<not> isspace (digit_chr d)"
proof
  assume d: "d < 10" and sp: "isspace (digit_chr d)"
  have "(of_char (digit_chr d) :: nat) \<le> 32" using sp by (rule isspace_code)
  moreover have "(of_char (digit_chr d) :: nat) = 48 + d"
    using d by (simp add: digit_chr_def)
  ultimately show False by simp
qed

lemma str_nat_not_space: "\<forall>c\<in>set (str_nat n). \<not> isspace c"
proof (induction n rule: str_nat.induct)
  case (1 n)
  show ?case
  proof (cases "n < 10")
    case True
    then show ?thesis by (subst str_nat.simps) (simp add: digit_chr_not_space)
  next
    case False
    then show ?thesis using 1 by (subst str_nat.simps) (simp add: digit_chr_not_space)
  qed
qed

lemma str_nat_not_empty: "str_nat n \<noteq> []"
  by (subst str_nat.simps) simp

lemma str_int_not_space: "\<forall>c\<in>set (str_int i). \<not> isspace c"
  using str_nat_not_space by (simp add: str_int_def isspace_def)

lemma str_int_not_empty: "str_int i \<noteq> []"
  by (simp add: str_int_def str_nat_not_empty)

lemma dropWhile_none: "\<forall>c\<in>set s. \<not> P c \<Longrightarrow> dropWhile P s = s"
  by (cases s) auto

lemma strip_no_space: "\<forall>c\<in>set s. \<not> isspace c \<Longrightarrow> strip s = s"
proof -
  assume a: "\<forall>c\<in>set s. \<not> isspace c"
  then have b: "\<forall>c\<in>set (rev s). \<not> isspace c" by simp
  show ?thesis
    unfolding strip_def by (simp only: dropWhile_none[OF a] dropWhile_none[OF b] rev_rev_ident)
qed

lemma safe_str_str_int: "safe_str (StrC (str_int n)) = str_int n"
  by (simp add: safe_str_def isna_def strip_no_space str_int_not_space)

lemma index_row_map_of:
  assumes "index_row cv col r idx = Inr idx'"
  shows "map_of idx' k = (if k \<in> set (row_keys cv col r) then Some r else map_of idx k)"
proof (cases "row_id col r")
  case None
  then have "\<not> (col < length r \<and> \<not> isna (r ! col))" by (simp add: row_id_def split: if_splits)
  then have "idx' = idx" using assms by (auto simp: index_row_def)
  then show ?thesis using None by (simp add: row_keys_def)
next
  case (Some p)
  then have c: "col < length r \<and> \<not> isna (r ! col)" and p: "p = safe_str (r ! col)"
    by (simp_all add: row_id_def split: if_splits)
  show ?thesis
  proof (cases "cv (StrC p)")
    case (Conv n)
    then have "idx' = AList.update p r (AList.update (str_int n) r idx)"
      using assms c p by (simp add: index_row_def Let_def)
    then show ?thesis using Some Conv by (simp add: row_keys_def update_conv')
  next
    case ValueErr
    then have "idx' = AList.update p r idx"
      using assms c p by (simp add: index_row_def Let_def)
    then show ?thesis using Some ValueErr by (simp add: row_keys_def update_conv')
  next
    case TypeErr
    then have "idx' = AList.update p r idx"
      using assms c p by (simp add: index_row_def Let_def)
    then show ?thesis using Some TypeErr by (simp add: row_keys_def update_conv')
  next
    case OverflowErr
    then show ?thesis using assms c p by (simp add: index_row_def Let_def)
  qed
qed

lemma find_snoc:
  "find P (xs @ [x]) = (case find P xs of Some y \<Rightarrow> Some y | None \<Rightarrow> if P x then Some x else None)"
  by (induction xs) auto

lemma index_rows_map_of:
  assumes "index_rows cv col rows idx = Inr idx'"
  shows "map_of idx' k =
         (case find (\<lambda>r. k \<in> set (row_keys cv col r)) (rev rows) of
            Some r \<Rightarrow> Some r
          | None \<Rightarrow> map_of idx k)"
  using assms
proof (induction rows arbitrary: idx)
  case Nil
  then show ?case by simp
next
  case (Cons r rows)
  then obtain idx1 where s: "index_row cv col r idx = Inr idx1"
    and t: "index_rows cv col rows idx1 = Inr idx'"
    by (auto split: sum.splits)
  have "map_of idx' k =
         (case find (\<lambda>r. k \<in> set (row_keys cv col r)) (rev rows) of
            Some r \<Rightarrow> Some r
          | None \<Rightarrow> map_of idx1 k)"
    by (rule Cons.IH[OF t])
  then show ?case
    using index_row_map_of[OF s, of k]
    by (simp add: find_snoc split: option.splits)
qed

lemma same_rows_for_both_keys:
  assumes s: "cv (StrC s) = Conv n"
    and k: "cv (StrC (str_int n)) = Conv n"
    and np: "normal_ids_parse cv col rows"
    and sp: "spelled_once cv col rows (str_int n) s"
    and r: "r \<in> set rows"
  shows "(s \<in> set (row_keys cv col r)) = (str_int n \<in> set (row_keys cv col r))"
proof (cases "row_id col r")
  case None
  then show ?thesis by (simp add: row_keys_def)
next
  case (Some p)
  show ?thesis
  proof (cases "cv (StrC p)")
    case (Conv m)
    have "case row_id col r of
            None \<Rightarrow> True
          | Some p \<Rightarrow> (case cv (StrC p) of Conv m \<Rightarrow> cv (StrC (str_int m)) = Conv m | _ \<Rightarrow> True)"
      using np r unfolding normal_ids_parse_def list_all_iff by (rule bspec)
    then have reparse: "cv (StrC (str_int m)) = Conv m"
      by (simp add: Some Conv)
    have "case row_id col r of
            None \<Rightarrow> True
          | Some p \<Rightarrow> (case cv (StrC p) of Conv m \<Rightarrow> str_int m = str_int n \<longrightarrow> p = s | _ \<Rightarrow> True)"
      using sp r unfolding spelled_once_def list_all_iff by (rule bspec)
    then have once: "str_int m = str_int n \<Longrightarrow> p = s"
      by (simp add: Some Conv)
    have keys: "set (row_keys cv col r) = {str_int m, p}"
      using Some Conv by (simp add: row_keys_def)
    show ?thesis
    proof
      assume "s \<in> set (row_keys cv col r)"
      then consider "s = p" | "s = str_int m" using keys by auto
      then have "m = n"
      proof cases
        case 1
        then show ?thesis using s Conv by simp
      next
        case 2
        then show ?thesis using s reparse by simp
      qed
      then show "str_int n \<in> set (row_keys cv col r)" using keys by simp
    next
      assume "str_int n \<in> set (row_keys cv col r)"
      then consider "str_int n = str_int m" | "str_int n = p" using keys by auto
      then have "str_int m = str_int n"
      proof cases
        case 1
        then show ?thesis by simp
      next
        case 2
        then have "m = n" using k Conv by simp
        then show ?thesis by simp
      qed
      then have "p = s" by (rule once)
      then show "s \<in> set (row_keys cv col r)" using keys by simp
    qed
  next
    case ValueErr
    then have "set (row_keys cv col r) = {p}" using Some by (simp add: row_keys_def)
    moreover have "s \<noteq> p" using s ValueErr by auto
    moreover have "str_int n \<noteq> p" using k ValueErr by auto
    ultimately show ?thesis by simp
  next
    case TypeErr
    then have "set (row_keys cv col r) = {p}" using Some by (simp add: row_keys_def)
    moreover have "s \<noteq> p" using s TypeErr by auto
    moreover have "str_int n \<noteq> p" using k TypeErr by auto
    ultimately show ?thesis by simp
  next
    case OverflowErr
    then have "set (row_keys cv col r) = {p}" using Some by (simp add: row_keys_def)
    moreover have "s \<noteq> p" using s OverflowErr by auto
    moreover have "str_int n \<noteq> p" using k OverflowErr by auto
    ultimately show ?thesis by simp
  qed
qed

lemma get_row_normal:
  assumes "cv (StrC (str_int n)) = Conv n"
  shows "get_row_by_product_id cv idx (StrC (str_int n)) = Inr (map_of idx (str_int n))"
  using assms
  by (cases "map_of idx (str_int n)")
     (simp_all add: get_row_by_product_id_def safe_str_str_int str_int_not_empty Let_def)

lemma key_of_row_is_spelling:
  assumes s: "cv (StrC s) = Conv n"
    and np: "normal_ids_parse cv col rows"
    and sp: "spelled_once cv col rows (str_int n) p"
    and r: "r \<in> set rows"
    and k: "s \<in> set (row_keys cv col r)"
  shows "s = p \<or> s = str_int n"
proof (cases "row_id col r")
  case None
  then show ?thesis using k by (simp add: row_keys_def)
next
  case (Some q)
  show ?thesis
  proof (cases "cv (StrC q)")
    case (Conv m)
    have "case row_id col r of
            None \<Rightarrow> True
          | Some p \<Rightarrow> (case cv (StrC p) of Conv m \<Rightarrow> cv (StrC (str_int m)) = Conv m | _ \<Rightarrow> True)"
      using np r unfolding normal_ids_parse_def list_all_iff by (rule bspec)
    then have reparse: "cv (StrC (str_int m)) = Conv m"
      by (simp add: Some Conv)
    have "case row_id col r of
            None \<Rightarrow> True
          | Some q \<Rightarrow> (case cv (StrC q) of Conv m \<Rightarrow> str_int m = str_int n \<longrightarrow> q = p | _ \<Rightarrow> True)"
      using sp r unfolding spelled_once_def list_all_iff by (rule bspec)
    then have once: "str_int m = str_int n \<Longrightarrow> q = p"
      by (simp add: Some Conv)
    have "s = str_int m \<or> s = q" using k Some Conv by (simp add: row_keys_def)
    then show ?thesis
    proof
      assume e: "s = str_int m"
      then have "m = n" using s reparse by simp
      then show ?thesis using e by simp
    next
      assume e: "s = q"
      then have "m = n" using s Conv by simp
      then have "q = p" using once by simp
      then show ?thesis using e by simp
    qed
  next
    case ValueErr
    then have "s = q" using k Some by (simp add: row_keys_def)
    then show ?thesis using s ValueErr by simp
  next
    case TypeErr
    then have "s = q" using k Some by (simp add: row_keys_def)
    then show ?thesis using s TypeErr by simp
  next
    case OverflowErr
    then have "s = q" using k Some by (simp add: row_keys_def)
    then show ?thesis using s OverflowErr by simp
  qed
qed

lemma find_Some_member: "find P xs = Some x \<Longrightarrow> x \<in> set xs \<and> P x"
  by (induction xs) (auto split: if_splits)

text \<open>
  C3 (as amended). Let the index be built from a table, let the trimmed product id be
  not empty and parse to the integer \<open>n\<close>, and let the text of \<open>n\<close> parse to \<open>n\<close>
  again. If the normalised ids of the table parse to themselves and all the rows whose
  id has the normalised form of the given id write their id in one way \<open>p\<close>, then
  \<^verbatim>\<open>_get_row_by_product_id\<close> returns the same for the id and for its normalised form.
\<close>

theorem same_record_for_normal_id:
  assumes "build_product_id_index cv cm sku_id_df = Inr idx"
    and "col = (case cm ProductIdCol of Some c \<Rightarrow> c | None \<Rightarrow> 1)"
    and "safe_str (StrC pid) \<noteq> []"
    and "cv (StrC (safe_str (StrC pid))) = Conv n"
    and "cv (StrC (str_int n)) = Conv n"
    and "normal_ids_parse cv col sku_id_df"
    and "spelled_once cv col sku_id_df (str_int n) p"
  shows "get_row_by_product_id cv idx (StrC pid) = get_row_by_product_id cv idx (StrC (str_int n))"
proof -
  let ?s = "safe_str (StrC pid)"
  have b: "index_rows cv col sku_id_df [] = Inr idx"
    using assms(1,2) by (simp add: build_product_id_index_def)
  have m: "map_of idx k = find (\<lambda>r. k \<in> set (row_keys cv col r)) (rev sku_id_df)" for k
    using index_rows_map_of[OF b, of k] by (simp split: option.splits)
  have e: "map_of idx ?s = map_of idx (str_int n)" if found: "map_of idx ?s \<noteq> None"
  proof -
    obtain r where "find (\<lambda>r. ?s \<in> set (row_keys cv col r)) (rev sku_id_df) = Some r"
      using found m[of ?s] by auto
    then have "r \<in> set (rev sku_id_df) \<and> ?s \<in> set (row_keys cv col r)"
      by (rule find_Some_member)
    then have "r \<in> set sku_id_df" and "?s \<in> set (row_keys cv col r)"
      by simp_all
    then have "?s = p \<or> ?s = str_int n"
      using key_of_row_is_spelling[OF assms(4,6,7)] by blast
    then show ?thesis
    proof
      assume "?s = p"
      then have sp: "spelled_once cv col sku_id_df (str_int n) ?s" using assms(7) by simp
      have "find (\<lambda>r. ?s \<in> set (row_keys cv col r)) (rev sku_id_df)
            = find (\<lambda>r. str_int n \<in> set (row_keys cv col r)) (rev sku_id_df)"
        by (rule find_cong[OF refl])
           (use same_rows_for_both_keys[OF assms(4,5,6) sp] in simp)
      then show ?thesis by (simp add: m)
    next
      assume "?s = str_int n"
      then show ?thesis by simp
    qed
  qed
  have "get_row_by_product_id cv idx (StrC pid) = Inr (map_of idx (str_int n))"
  proof (cases "map_of idx ?s")
    case None
    then show ?thesis using assms(3,4)
      by (simp add: get_row_by_product_id_def Let_def)
  next
    case (Some r)
    then have "map_of idx (str_int n) = Some r" using e by simp
    then show ?thesis using assms(3) Some
      by (simp add: get_row_by_product_id_def Let_def)
  qed
  then show ?thesis using get_row_normal[of cv n idx, OF assms(5)] by simp
qed

text \<open>
  The instance: the example table writes the id 777 as \<^verbatim>\<open>777.0\<close> only; the id
  \<^verbatim>\<open>777.00\<close> and its normal form \<^verbatim>\<open>777\<close> resolve to the same row.
\<close>

theorem same_record_for_normal_id_witness:
  "build_product_id_index int_float example_col_mapping example_table = Inr example_index \<and>
   int_float (StrC ''777.00'') = Conv 777 \<and> str_int 777 = ''777'' \<and>
   spelled_once int_float 1 example_table ''777'' ''777.0'' \<and>
   get_row_by_product_id int_float example_index (StrC ''777.00'')
     = get_row_by_product_id int_float example_index (StrC ''777'') \<and>
   get_row_by_product_id int_float example_index (StrC ''777'') = Inr (Some (example_table ! 0))"
proof -
  have h1: "build_product_id_index int_float example_col_mapping example_table = Inr example_index"
    by code_simp
  have h2: "1 = (case example_col_mapping ProductIdCol of Some c \<Rightarrow> c | None \<Rightarrow> 1)"
    by (simp add: example_col_mapping_def)
  have h3: "safe_str (StrC ''777.00'') \<noteq> []" by code_simp
  have s: "str_int 777 = ''777''" by code_simp
  have p: "int_float (StrC ''777.00'') = Conv 777" by code_simp
  have h4: "int_float (StrC (safe_str (StrC ''777.00''))) = Conv 777" by code_simp
  have h5: "int_float (StrC (str_int 777)) = Conv 777" by code_simp
  have h6: "normal_ids_parse int_float 1 example_table" by code_simp
  have h7: "spelled_once int_float 1 example_table (str_int 777) ''777.0''"
    by code_simp
  have e: "get_row_by_product_id int_float example_index (StrC ''777.00'')
           = get_row_by_product_id int_float example_index (StrC (str_int 777))"
    by (rule same_record_for_normal_id[OF h1 h2 h3 h4 h5 h6 h7])
  have v: "get_row_by_product_id int_float example_index (StrC ''777'') = Inr (Some (example_table ! 0))"
    by code_simp
  show ?thesis using h1 p s e v h7 by simp
qed

text \<open>
  Without the condition on the table the claim fails: in a table that has a row with the
  id \<^verbatim>\<open>123.0\<close> and a later row with the id \<^verbatim>\<open>123\<close>, the key \<^verbatim>\<open>123.0\<close> holds the
  first row and the key \<^verbatim>\<open>123\<close> the second, and each id resolves to its own row.
\<close>

theorem two_spellings_counterexample:
  "build_product_id_index int_float example_col_mapping two_spellings_table = Inr two_spellings_index \<and>
   int_float (StrC ''123.0'') = Conv 123 \<and> str_int 123 = ''123'' \<and>
   int_float (StrC ''123'') = Conv 123 \<and>
   get_row_by_product_id int_float two_spellings_index (StrC ''123.0'')
     = Inr (Some (two_spellings_table ! 0)) \<and>
   get_row_by_product_id int_float two_spellings_index (StrC ''123'')
     = Inr (Some (two_spellings_table ! 1)) \<and>
   two_spellings_table ! 0 \<noteq> two_spellings_table ! 1"
proof -
  have a1: "build_product_id_index int_float example_col_mapping two_spellings_table
            = Inr two_spellings_index" by code_simp
  have a2: "int_float (StrC ''123.0'') = Conv 123" by code_simp
  have a3: "str_int 123 = ''123''" by code_simp
  have a4: "int_float (StrC ''123'') = Conv 123" by code_simp
  have a5: "get_row_by_product_id int_float two_spellings_index (StrC ''123.0'')
            = Inr (Some (two_spellings_table ! 0))" by code_simp
  have a6: "get_row_by_product_id int_float two_spellings_index (StrC ''123'')
            = Inr (Some (two_spellings_table ! 1))" by code_simp
  have a7: "two_spellings_table ! 0 \<noteq> two_spellings_table ! 1" by code_simp
  show ?thesis using a1 a2 a3 a4 a5 a6 a7 by blast
qed

end
